theory Spec2Isabelle
  imports Complex_Main
begin

section \<open>The geometry core of the tessellation editor (src/app/page.tsx)\<close>

text \<open>
  The development embeds the pure geometry functions of \<^verbatim>\<open>page.tsx\<close>:
  \<^verbatim>\<open>getShapeEdges\<close>, \<^verbatim>\<open>areEdgesCompatible\<close>, \<^verbatim>\<open>canTilesSnap\<close> and
  \<^verbatim>\<open>createSymmetryMirrors\<close>.

  Numbers. A TypeScript \<^verbatim>\<open>number\<close> is an IEEE-754 double. The functions are embedded
  twice. The first embedding, over \<^typ>\<open>real\<close>, is the code under exact arithmetic: no
  rounding, no overflow, no infinity, no NaN. It agrees with the code wherever the code's
  arithmetic happens to be exact, and it is the reading under which the geometric
  statements of the specification are meant; the one place where the source can divide
  by zero on finite inputs and branch on the result (the direction normalisation of
  \<^verbatim>\<open>areEdgesCompatible\<close>) is written out as an explicit case. The second embedding, over
  binary64 numbers (section ``The same functions over binary64 numbers''), rounds every
  operation as the code does; its constants carry the suffix \<open>64\<close>. Where a statement
  is true of the exact functions but not of the code, the binary64 embedding states what
  the code does.

  Names. Record fields are global constants, so the fields \<^verbatim>\<open>x\<close>, \<^verbatim>\<open>y\<close> of
  \<^verbatim>\<open>Point\<close> are \<open>pt_x\<close>, \<open>pt_y\<close>; \<^verbatim>\<open>id\<close>, \<^verbatim>\<open>x\<close>, \<^verbatim>\<open>y\<close> of \<^verbatim>\<open>Tile\<close> are
  \<open>tile_id\<close>, \<open>tile_x\<close>, \<open>tile_y\<close>; \<^verbatim>\<open>start\<close>, \<^verbatim>\<open>end\<close>, \<^verbatim>\<open>length\<close> of
  \<^verbatim>\<open>Edge\<close> are \<open>edge_start\<close>, \<open>edge_end\<close>, \<open>edge_length\<close>. Optional fields are
  \<open>option\<close>s.
\<close>

subsection \<open>Data model\<close>

record Point =
  pt_x :: real
  pt_y :: real

datatype ShapeType = Triangle | Square | Hexagon | Diamond

datatype SymmetryMode = SymNone | Horizontal | Vertical | Radial

record Tile =
  tile_id :: string
  shape :: ShapeType
  tile_x :: real
  tile_y :: real
  rotation :: real
  color :: string
  isSymmetryMirror :: "bool option"
  originalId :: "string option"

record Edge =
  edge_start :: Point
  edge_end :: Point
  edge_length :: real
  midpoint :: Point
  normal :: Point

text \<open>The result object of \<^verbatim>\<open>canTilesSnap\<close>; \<^verbatim>\<open>null\<close> is \<open>None\<close>.\<close>

record SnapResult =
  canSnap :: bool
  snapPosition :: "Point option"

text \<open>The local variable \<^verbatim>\<open>bestSnap\<close> of \<^verbatim>\<open>canTilesSnap\<close>.\<close>

record BestSnap =
  edge1 :: Edge
  edge2 :: Edge
  distance :: real

subsection \<open>getShapeEdges\<close>

text \<open>
  The closure \<^verbatim>\<open>transform\<close>: rotate a local point by \<^verbatim>\<open>tile.rotation\<close> degrees and
  translate it by the tile's centre.
\<close>

definition transform :: "Tile \<Rightarrow> real \<Rightarrow> real \<Rightarrow> Point" where
  "transform tile localX localY =
     (let c = cos (rotation tile * pi / 180);
          s = sin (rotation tile * pi / 180)
      in \<lparr>pt_x = tile_x tile + (localX * c - localY * s),
          pt_y = tile_y tile + (localX * s + localY * c)\<rparr>)"

text \<open>The \<^verbatim>\<open>switch (tile.shape)\<close>: the world-space vertices, in catalogue order.\<close>

definition shapeVertices :: "Tile \<Rightarrow> Point list" where
  "shapeVertices tile =
     (case shape tile of
        Triangle \<Rightarrow> [transform tile 0 (-30), transform tile 25 15, transform tile (-25) 15]
      | Square \<Rightarrow> [transform tile (-25) (-25), transform tile 25 (-25),
                   transform tile 25 25, transform tile (-25) 25]
      | Hexagon \<Rightarrow> [transform tile 50 0, transform tile 25 (433 / 10),
                    transform tile (-25) (433 / 10), transform tile (-50) 0,
                    transform tile (-25) (- (433 / 10)), transform tile 25 (- (433 / 10))]
      | Diamond \<Rightarrow> [transform tile 0 (-30), transform tile 30 0,
                    transform tile 0 30, transform tile (-30) 0])"

text \<open>
  The body of the \<^verbatim>\<open>for\<close> loop for one consecutive vertex pair. The source divides by
  \<^verbatim>\<open>length\<close> without a guard and pushes the edge unconditionally. For \<open>start = end'\<close>
  the length is 0 and JavaScript computes the normal as \<^verbatim>\<open>0 / 0 = NaN\<close>; the value of
  \<open>normal\<close> in that case is not meaningful here, and no theorem about the edges of a
  tile meets it: those edges have positive length (\<open>getShapeEdges_length_pos\<close>).
\<close>

definition makeEdge :: "Tile \<Rightarrow> Point \<Rightarrow> Point \<Rightarrow> Edge" where
  "makeEdge tile start end' =
     (let dx = pt_x end' - pt_x start;
          dy = pt_y end' - pt_y start;
          len = sqrt (dx * dx + dy * dy);
          mid = \<lparr>pt_x = (pt_x start + pt_x end') / 2, pt_y = (pt_y start + pt_y end') / 2\<rparr>;
          nx = dy / len;
          ny = - dx / len;
          edgeToCenterX = tile_x tile - pt_x mid;
          edgeToCenterY = tile_y tile - pt_y mid;
          dotProduct = nx * edgeToCenterX + ny * edgeToCenterY;
          n = (if dotProduct > 0 then \<lparr>pt_x = - nx, pt_y = - ny\<rparr> else \<lparr>pt_x = nx, pt_y = ny\<rparr>)
      in \<lparr>edge_start = start, edge_end = end', edge_length = len, midpoint = mid, normal = n\<rparr>)"

text \<open>
  The loop \<^verbatim>\<open>for (let i = 0; i < vertices.length; i++)\<close> with
  \<^verbatim>\<open>end = vertices[(i + 1) % vertices.length]\<close>; both indices are always in range.
\<close>

definition edgesOfVertices :: "Tile \<Rightarrow> Point list \<Rightarrow> Edge list" where
  "edgesOfVertices tile vertices =
     map (\<lambda>i. makeEdge tile (vertices ! i) (vertices ! ((i + 1) mod length vertices)))
         [0 ..< length vertices]"

definition getShapeEdges :: "Tile \<Rightarrow> Edge list" where
  "getShapeEdges tile = edgesOfVertices tile (shapeVertices tile)"

subsection \<open>areEdgesCompatible\<close>

text \<open>
  Four gates, each returning \<^verbatim>\<open>false\<close> early. \<^verbatim>\<open>Math.pow(d, 2)\<close> is \<open>d\<^sup>2\<close>.
  In the last gate the source divides the direction vectors by their lengths; when a
  length is zero both components are \<^verbatim>\<open>0/0 = NaN\<close>, the dot product is NaN, the
  comparison \<^verbatim>\<open>NaN < 0.9\<close> is false, and the function returns \<^verbatim>\<open>true\<close>.
\<close>

definition midpointDistance :: "Edge \<Rightarrow> Edge \<Rightarrow> real" where
  "midpointDistance e1 e2 =
     sqrt ((pt_x (midpoint e1) - pt_x (midpoint e2))\<^sup>2 +
           (pt_y (midpoint e1) - pt_y (midpoint e2))\<^sup>2)"

definition areEdgesCompatible :: "Edge \<Rightarrow> Edge \<Rightarrow> bool" where
  "areEdgesCompatible e1 e2 =
     (let lengthDiff = \<bar>edge_length e1 - edge_length e2\<bar> in
      if lengthDiff > 2 then False
      else let dist = midpointDistance e1 e2 in
      if dist > 40 then False
      else let dotProduct = pt_x (normal e1) * pt_x (normal e2) + pt_y (normal e1) * pt_y (normal e2) in
      if dotProduct > - (9 / 10) then False
      else let d1x = pt_x (edge_end e1) - pt_x (edge_start e1);
               d1y = pt_y (edge_end e1) - pt_y (edge_start e1);
               d2x = pt_x (edge_end e2) - pt_x (edge_start e2);
               d2y = pt_y (edge_end e2) - pt_y (edge_start e2);
               edge1Len = sqrt (d1x * d1x + d1y * d1y);
               edge2Len = sqrt (d2x * d2x + d2y * d2y)
      in if edge1Len = 0 \<or> edge2Len = 0 then True
         else let edgeDotProduct =
                    \<bar>(d1x / edge1Len) * (d2x / edge2Len) + (d1y / edge1Len) * (d2y / edge2Len)\<bar>
              in if edgeDotProduct < 9 / 10 then False else True)"

subsection \<open>canTilesSnap\<close>

text \<open>
  The body of the inner loop: a compatible pair replaces \<^verbatim>\<open>bestSnap\<close> when there is
  none yet or when its midpoint distance is strictly smaller.
\<close>

definition snapStep :: "Edge \<Rightarrow> Edge \<Rightarrow> BestSnap option \<Rightarrow> BestSnap option" where
  "snapStep e1 e2 bestSnap =
     (if areEdgesCompatible e1 e2 then
        (let d = midpointDistance e1 e2 in
         case bestSnap of
           None \<Rightarrow> Some \<lparr>edge1 = e1, edge2 = e2, distance = d\<rparr>
         | Some b \<Rightarrow> if d < distance b then Some \<lparr>edge1 = e1, edge2 = e2, distance = d\<rparr>
                     else Some b)
      else bestSnap)"

text \<open>The two nested \<^verbatim>\<open>for ... of\<close> iterations, outer over \<^verbatim>\<open>edges1\<close>, inner over \<^verbatim>\<open>edges2\<close>.\<close>

definition findBestSnap :: "Edge list \<Rightarrow> Edge list \<Rightarrow> BestSnap option" where
  "findBestSnap edges1 edges2 =
     fold (\<lambda>e1 best. fold (\<lambda>e2 best'. snapStep e1 e2 best') edges2 best) edges1 None"

definition canTilesSnap :: "Tile \<Rightarrow> Tile \<Rightarrow> SnapResult" where
  "canTilesSnap tile1 tile2 =
     (case findBestSnap (getShapeEdges tile1) (getShapeEdges tile2) of
        None \<Rightarrow> \<lparr>canSnap = False, snapPosition = None\<rparr>
      | Some b \<Rightarrow>
          (let offsetX = pt_x (midpoint (edge2 b)) - pt_x (midpoint (edge1 b));
               offsetY = pt_y (midpoint (edge2 b)) - pt_y (midpoint (edge1 b));
               separation = 1;
               separationX = pt_x (normal (edge2 b)) * separation;
               separationY = pt_y (normal (edge2 b)) * separation
           in \<lparr>canSnap = True,
               snapPosition = Some \<lparr>pt_x = tile_x tile1 + offsetX + separationX,
                                     pt_y = tile_y tile1 + offsetY + separationY\<rparr>\<rparr>))"

subsection \<open>createSymmetryMirrors\<close>

text \<open>
  \<^verbatim>\<open>symmetryMode\<close> is captured from the component's state and is a parameter here.
  \<^verbatim>\<open>generateId()\<close> draws from \<^verbatim>\<open>Math.random\<close>; the draws of one call are the
  parameter \<open>fresh\<close>, \<open>fresh k\<close> being the identifier returned by the \<open>k\<close>-th call
  (object literals are evaluated in order). The spread \<^verbatim>\<open>...originalTile\<close> copies every
  field; the fields listed after it are overwritten.
\<close>

definition centerX :: real where
  "centerX = 300"

definition centerY :: real where
  "centerY = 300"

definition createSymmetryMirrors :: "SymmetryMode \<Rightarrow> (nat \<Rightarrow> string) \<Rightarrow> Tile \<Rightarrow> Tile list" where
  "createSymmetryMirrors symmetryMode fresh originalTile =
     (case symmetryMode of
        SymNone \<Rightarrow> []
      | Horizontal \<Rightarrow>
          [originalTile\<lparr>tile_id := fresh 0,
                        tile_x := centerX * 2 - tile_x originalTile,
                        isSymmetryMirror := Some True,
                        originalId := Some (tile_id originalTile)\<rparr>]
      | Vertical \<Rightarrow>
          [originalTile\<lparr>tile_id := fresh 0,
                        tile_y := centerY * 2 - tile_y originalTile,
                        isSymmetryMirror := Some True,
                        originalId := Some (tile_id originalTile)\<rparr>]
      | Radial \<Rightarrow>
          [originalTile\<lparr>tile_id := fresh 0,
                        tile_x := centerX * 2 - tile_x originalTile,
                        isSymmetryMirror := Some True,
                        originalId := Some (tile_id originalTile)\<rparr>,
           originalTile\<lparr>tile_id := fresh 1,
                        tile_y := centerY * 2 - tile_y originalTile,
                        isSymmetryMirror := Some True,
                        originalId := Some (tile_id originalTile)\<rparr>,
           originalTile\<lparr>tile_id := fresh 2,
                        tile_x := centerX * 2 - tile_x originalTile,
                        tile_y := centerY * 2 - tile_y originalTile,
                        isSymmetryMirror := Some True,
                        originalId := Some (tile_id originalTile)\<rparr>])"

subsection \<open>Auxiliary notions used in the statements and proofs\<close>

text \<open>The dot product of the two normals, gate 3 of \<open>areEdgesCompatible\<close>.\<close>

definition normalDot :: "Edge \<Rightarrow> Edge \<Rightarrow> real" where
  "normalDot e1 e2 = pt_x (normal e1) * pt_x (normal e2) + pt_y (normal e1) * pt_y (normal e2)"

text \<open>
  The dot product of an edge's normal with the vector from its midpoint to the tile
  centre (the quantity \<^verbatim>\<open>dotProduct\<close> of \<^verbatim>\<open>getShapeEdges\<close>, taken on the final normal).
\<close>

definition inwardDot :: "Tile \<Rightarrow> Edge \<Rightarrow> real" where
  "inwardDot tile e =
     pt_x (normal e) * (tile_x tile - pt_x (midpoint e)) +
     pt_y (normal e) * (tile_y tile - pt_y (midpoint e))"

text \<open>The edge of a tile between two local (catalogue) points.\<close>

definition tileEdge :: "Tile \<Rightarrow> real \<Rightarrow> real \<Rightarrow> real \<Rightarrow> real \<Rightarrow> Edge" where
  "tileEdge t ax ay bx by = makeEdge t (transform t ax ay) (transform t bx by)"

text \<open>The catalogue segments (local start and end point) in the order of the switch.\<close>

definition localSegments :: "ShapeType \<Rightarrow> (real \<times> real \<times> real \<times> real) list" where
  "localSegments k =
     (case k of
        Triangle \<Rightarrow> [(0, -30, 25, 15), (25, 15, -25, 15), (-25, 15, 0, -30)]
      | Square \<Rightarrow> [(-25, -25, 25, -25), (25, -25, 25, 25), (25, 25, -25, 25), (-25, 25, -25, -25)]
      | Hexagon \<Rightarrow> [(50, 0, 25, 433 / 10), (25, 433 / 10, -25, 433 / 10), (-25, 433 / 10, -50, 0),
                    (-50, 0, -25, - (433 / 10)), (-25, - (433 / 10), 25, - (433 / 10)),
                    (25, - (433 / 10), 50, 0)]
      | Diamond \<Rightarrow> [(0, -30, 30, 0), (30, 0, 0, 30), (0, 30, -30, 0), (-30, 0, 0, -30)])"

text \<open>
  The sign that the flip of \<open>makeEdge\<close> gives the raw normal of a local segment; it does
  not depend on the rotation or the position of the tile.
\<close>

definition localFlip :: "real \<Rightarrow> real \<Rightarrow> real \<Rightarrow> real \<Rightarrow> real" where
  "localFlip ax ay bx by =
     (if (by - ay) * (ax + bx) - (bx - ax) * (ay + by) < 0 then - 1 else 1)"

text \<open>
  A test in rational arithmetic on two local segments of one tile that holds whenever
  their edges pass gates 2 and 3: squared midpoint distance at most \<open>40\<^sup>2\<close>, and a
  negative normal dot product whose square is at least \<open>(9/10)\<^sup>2\<close> of the product of
  the squared lengths.
\<close>

definition localMayBond ::
  "real \<Rightarrow> real \<Rightarrow> real \<Rightarrow> real \<Rightarrow> real \<Rightarrow> real \<Rightarrow> real \<Rightarrow> real \<Rightarrow> bool" where
  "localMayBond ax ay bx by ax' ay' bx' by' =
     (let g = localFlip ax ay bx by * localFlip ax' ay' bx' by' *
              ((bx - ax) * (bx' - ax') + (by - ay) * (by' - ay'))
      in ((ax + bx) / 2 - (ax' + bx') / 2) * ((ax + bx) / 2 - (ax' + bx') / 2) +
         ((ay + by) / 2 - (ay' + by') / 2) * ((ay + by) / 2 - (ay' + by') / 2) \<le> 1600 \<and>
         g < 0 \<and>
         81 * (((bx - ax) * (bx - ax) + (by - ay) * (by - ay)) *
               ((bx' - ax') * (bx' - ax') + (by' - ay') * (by' - ay'))) \<le> 100 * (g * g))"





text \<open>
  Positions and the two reflections through the canvas centre, as the specification
  words them: \<open>x' = 2 \<cdot> center.x - x\<close> and \<open>y' = 2 \<cdot> center.y - y\<close>.
\<close>

definition tilePosition :: "Tile \<Rightarrow> real \<times> real" where
  "tilePosition t = (tile_x t, tile_y t)"

definition reflectHorizontal :: "real \<times> real \<Rightarrow> real \<times> real" where
  "reflectHorizontal p = (2 * centerX - fst p, snd p)"

definition reflectVertical :: "real \<times> real \<Rightarrow> real \<times> real" where
  "reflectVertical p = (fst p, 2 * centerY - snd p)"

text \<open>A concrete tile for the instances below.\<close>

definition placedTile :: "string \<Rightarrow> ShapeType \<Rightarrow> real \<Rightarrow> real \<Rightarrow> Tile" where
  "placedTile tid k px py =
     \<lparr>tile_id = tid, shape = k, tile_x = px, tile_y = py, rotation = 0,
      color = ''#ef4444'', isSymmetryMirror = None, originalId = None\<rparr>"

section \<open>The same functions over binary64 numbers\<close>

text \<open>
  The second embedding keeps the rounding of the code. A number is a finite real, an
  infinity or NaN; every arithmetic operation computes the exact result and rounds it to
  the nearest binary64 value, ties to even, with gradual underflow, and overflows to an
  infinity. The sign of zero is not represented: the code compares, adds and multiplies
  zeros, which does not observe the sign, and it divides only by results of
  \<^verbatim>\<open>Math.sqrt\<close> of a sum of squares, which are never \<^verbatim>\<open>-0\<close>; a zero divisor is
  therefore taken as \<^verbatim>\<open>+0\<close>.
\<close>

subsection \<open>Rounding\<close>

datatype num = Fin real | PInf | NInf | NaN

definition binExp :: "real \<Rightarrow> int" where
  "binExp x = \<lfloor>log 2 \<bar>x\<bar>\<rfloor>"

text \<open>The spacing of the binary64 values around \<open>x\<close>: 53 significant bits, least exponent \<open>-1074\<close>.\<close>

definition ulp64 :: "real \<Rightarrow> real" where
  "ulp64 x = 2 powr of_int (max (binExp x - 52) (- 1074))"

definition roundHalfEven :: "real \<Rightarrow> int" where
  "roundHalfEven q =
     (let f = \<lfloor>q\<rfloor> in
      if q - of_int f < 1 / 2 then f
      else if 1 / 2 < q - of_int f then f + 1
      else if even f then f else f + 1)"

definition rnd :: "real \<Rightarrow> real" where
  "rnd x = (if x = 0 then 0 else of_int (roundHalfEven (x / ulp64 x)) * ulp64 x)"

definition maxDouble :: real where
  "maxDouble = (2 ^ 53 - 1) * 2 ^ 971"

text \<open>Round an exact result; a rounded value beyond the largest double is an infinity.\<close>

definition fin :: "real \<Rightarrow> num" where
  "fin x = (let r = rnd x in if maxDouble < r then PInf else if r < - maxDouble then NInf else Fin r)"

subsection \<open>Arithmetic and comparisons\<close>

fun fneg :: "num \<Rightarrow> num" where
  "fneg (Fin a) = Fin (- a)"
| "fneg PInf = NInf"
| "fneg NInf = PInf"
| "fneg NaN = NaN"

fun fadd :: "num \<Rightarrow> num \<Rightarrow> num" where
  "fadd (Fin a) (Fin b) = fin (a + b)"
| "fadd NaN _ = NaN"
| "fadd _ NaN = NaN"
| "fadd PInf NInf = NaN"
| "fadd NInf PInf = NaN"
| "fadd PInf _ = PInf"
| "fadd _ PInf = PInf"
| "fadd NInf _ = NInf"
| "fadd _ NInf = NInf"

definition fsub :: "num \<Rightarrow> num \<Rightarrow> num" where
  "fsub a b = fadd a (fneg b)"

fun fmul :: "num \<Rightarrow> num \<Rightarrow> num" where
  "fmul (Fin a) (Fin b) = fin (a * b)"
| "fmul NaN _ = NaN"
| "fmul _ NaN = NaN"
| "fmul (Fin a) PInf = (if a = 0 then NaN else if 0 < a then PInf else NInf)"
| "fmul (Fin a) NInf = (if a = 0 then NaN else if 0 < a then NInf else PInf)"
| "fmul PInf (Fin b) = (if b = 0 then NaN else if 0 < b then PInf else NInf)"
| "fmul NInf (Fin b) = (if b = 0 then NaN else if 0 < b then NInf else PInf)"
| "fmul PInf PInf = PInf"
| "fmul NInf NInf = PInf"
| "fmul PInf NInf = NInf"
| "fmul NInf PInf = NInf"

fun fdiv :: "num \<Rightarrow> num \<Rightarrow> num" where
  "fdiv (Fin a) (Fin b) =
     (if b = 0 then (if a = 0 then NaN else if 0 < a then PInf else NInf) else fin (a / b))"
| "fdiv NaN _ = NaN"
| "fdiv _ NaN = NaN"
| "fdiv (Fin a) _ = Fin 0"
| "fdiv PInf (Fin b) = (if 0 \<le> b then PInf else NInf)"
| "fdiv NInf (Fin b) = (if 0 \<le> b then NInf else PInf)"
| "fdiv _ _ = NaN"

fun fsqrt :: "num \<Rightarrow> num" where
  "fsqrt (Fin a) = (if a < 0 then NaN else fin (sqrt a))"
| "fsqrt PInf = PInf"
| "fsqrt NInf = NaN"
| "fsqrt NaN = NaN"

fun fabs :: "num \<Rightarrow> num" where
  "fabs (Fin a) = Fin \<bar>a\<bar>"
| "fabs PInf = PInf"
| "fabs NInf = PInf"
| "fabs NaN = NaN"

text \<open>The comparison \<^verbatim>\<open>a > b\<close>; it is false when an operand is NaN.\<close>

fun fgt :: "num \<Rightarrow> num \<Rightarrow> bool" where
  "fgt (Fin a) (Fin b) = (b < a)"
| "fgt NaN _ = False"
| "fgt _ NaN = False"
| "fgt PInf PInf = False"
| "fgt PInf _ = True"
| "fgt _ PInf = False"
| "fgt NInf _ = False"
| "fgt _ NInf = True"

definition flt :: "num \<Rightarrow> num \<Rightarrow> bool" where
  "flt a b = fgt b a"


text \<open>A decimal literal of the source is the nearest double.\<close>

definition lit :: "real \<Rightarrow> num" where
  "lit r = Fin (rnd r)"

text \<open>
  \<^verbatim>\<open>Math.pow(d, 2)\<close> is the rounded square. \<^verbatim>\<open>Math.PI\<close> is the double nearest to
  \<open>\<pi>\<close>. \<^verbatim>\<open>Math.cos\<close> and \<^verbatim>\<open>Math.sin\<close> are implementation-approximated in ECMAScript;
  they are taken here as the correctly rounded functions, which agrees with every
  implementation at the argument 0 (\<^verbatim>\<open>cos(0) = 1\<close>, \<^verbatim>\<open>sin(0) = 0\<close>), the only argument at
  which the statements below evaluate them.
\<close>

definition mathPow2 :: "num \<Rightarrow> num" where
  "mathPow2 d = fmul d d"

definition mathPI :: num where
  "mathPI = Fin (rnd pi)"

fun mathCos :: "num \<Rightarrow> num" where
  "mathCos (Fin a) = fin (cos a)"
| "mathCos _ = NaN"

fun mathSin :: "num \<Rightarrow> num" where
  "mathSin (Fin a) = fin (sin a)"
| "mathSin _ = NaN"

subsection \<open>Data model over binary64\<close>

record Point64 =
  x64 :: num
  y64 :: num

record Tile64 =
  id64 :: string
  shape64 :: ShapeType
  tileX64 :: num
  tileY64 :: num
  rotation64 :: num
  color64 :: string
  isSymmetryMirror64 :: "bool option"
  originalId64 :: "string option"

record Edge64 =
  start64 :: Point64
  end64 :: Point64
  length64 :: num
  midpoint64 :: Point64
  normal64 :: Point64

record SnapResult64 =
  canSnap64 :: bool
  snapPosition64 :: "Point64 option"

record BestSnap64 =
  bestEdge1 :: Edge64
  bestEdge2 :: Edge64
  bestDistance :: num

subsection \<open>getShapeEdges over binary64\<close>

definition transform64 :: "Tile64 \<Rightarrow> num \<Rightarrow> num \<Rightarrow> Point64" where
  "transform64 tile localX localY =
     (let c = mathCos (fdiv (fmul (rotation64 tile) mathPI) (Fin 180));
          s = mathSin (fdiv (fmul (rotation64 tile) mathPI) (Fin 180))
      in \<lparr>x64 = fadd (tileX64 tile) (fsub (fmul localX c) (fmul localY s)),
          y64 = fadd (tileY64 tile) (fadd (fmul localX s) (fmul localY c))\<rparr>)"

definition shapeVertices64 :: "Tile64 \<Rightarrow> Point64 list" where
  "shapeVertices64 tile =
     (case shape64 tile of
        Triangle \<Rightarrow> [transform64 tile (Fin 0) (Fin (- 30)), transform64 tile (Fin 25) (Fin 15),
                     transform64 tile (Fin (- 25)) (Fin 15)]
      | Square \<Rightarrow> [transform64 tile (Fin (- 25)) (Fin (- 25)), transform64 tile (Fin 25) (Fin (- 25)),
                   transform64 tile (Fin 25) (Fin 25), transform64 tile (Fin (- 25)) (Fin 25)]
      | Hexagon \<Rightarrow> [transform64 tile (Fin 50) (Fin 0), transform64 tile (Fin 25) (lit (433 / 10)),
                    transform64 tile (Fin (- 25)) (lit (433 / 10)), transform64 tile (Fin (- 50)) (Fin 0),
                    transform64 tile (Fin (- 25)) (fneg (lit (433 / 10))),
                    transform64 tile (Fin 25) (fneg (lit (433 / 10)))]
      | Diamond \<Rightarrow> [transform64 tile (Fin 0) (Fin (- 30)), transform64 tile (Fin 30) (Fin 0),
                    transform64 tile (Fin 0) (Fin 30), transform64 tile (Fin (- 30)) (Fin 0)])"

definition makeEdge64 :: "Tile64 \<Rightarrow> Point64 \<Rightarrow> Point64 \<Rightarrow> Edge64" where
  "makeEdge64 tile start end' =
     (let dx = fsub (x64 end') (x64 start);
          dy = fsub (y64 end') (y64 start);
          len = fsqrt (fadd (fmul dx dx) (fmul dy dy));
          mid = \<lparr>x64 = fdiv (fadd (x64 start) (x64 end')) (Fin 2),
                 y64 = fdiv (fadd (y64 start) (y64 end')) (Fin 2)\<rparr>;
          nx = fdiv dy len;
          ny = fdiv (fneg dx) len;
          edgeToCenterX = fsub (tileX64 tile) (x64 mid);
          edgeToCenterY = fsub (tileY64 tile) (y64 mid);
          dotProduct = fadd (fmul nx edgeToCenterX) (fmul ny edgeToCenterY);
          n = (if fgt dotProduct (Fin 0) then \<lparr>x64 = fneg nx, y64 = fneg ny\<rparr>
               else \<lparr>x64 = nx, y64 = ny\<rparr>)
      in \<lparr>start64 = start, end64 = end', length64 = len, midpoint64 = mid, normal64 = n\<rparr>)"

definition edgesOfVertices64 :: "Tile64 \<Rightarrow> Point64 list \<Rightarrow> Edge64 list" where
  "edgesOfVertices64 tile vertices =
     map (\<lambda>i. makeEdge64 tile (vertices ! i) (vertices ! ((i + 1) mod length vertices)))
         [0 ..< length vertices]"

definition getShapeEdges64 :: "Tile64 \<Rightarrow> Edge64 list" where
  "getShapeEdges64 tile = edgesOfVertices64 tile (shapeVertices64 tile)"

subsection \<open>areEdgesCompatible and canTilesSnap over binary64\<close>

definition midpointDistance64 :: "Edge64 \<Rightarrow> Edge64 \<Rightarrow> num" where
  "midpointDistance64 e1 e2 =
     fsqrt (fadd (mathPow2 (fsub (x64 (midpoint64 e1)) (x64 (midpoint64 e2))))
                 (mathPow2 (fsub (y64 (midpoint64 e1)) (y64 (midpoint64 e2)))))"

definition normalDot64 :: "Edge64 \<Rightarrow> Edge64 \<Rightarrow> num" where
  "normalDot64 e1 e2 =
     fadd (fmul (x64 (normal64 e1)) (x64 (normal64 e2)))
          (fmul (y64 (normal64 e1)) (y64 (normal64 e2)))"

definition areEdgesCompatible64 :: "Edge64 \<Rightarrow> Edge64 \<Rightarrow> bool" where
  "areEdgesCompatible64 e1 e2 =
     (let lengthDiff = fabs (fsub (length64 e1) (length64 e2)) in
      if fgt lengthDiff (Fin 2) then False
      else let dist = midpointDistance64 e1 e2 in
      if fgt dist (Fin 40) then False
      else let dotProduct = normalDot64 e1 e2 in
      if fgt dotProduct (fneg (lit (9 / 10))) then False
      else let d1x = fsub (x64 (end64 e1)) (x64 (start64 e1));
               d1y = fsub (y64 (end64 e1)) (y64 (start64 e1));
               d2x = fsub (x64 (end64 e2)) (x64 (start64 e2));
               d2y = fsub (y64 (end64 e2)) (y64 (start64 e2));
               edge1Len = fsqrt (fadd (fmul d1x d1x) (fmul d1y d1y));
               edge2Len = fsqrt (fadd (fmul d2x d2x) (fmul d2y d2y));
               edgeDotProduct =
                 fabs (fadd (fmul (fdiv d1x edge1Len) (fdiv d2x edge2Len))
                            (fmul (fdiv d1y edge1Len) (fdiv d2y edge2Len)))
      in if flt edgeDotProduct (lit (9 / 10)) then False else True)"

definition snapStep64 :: "Edge64 \<Rightarrow> Edge64 \<Rightarrow> BestSnap64 option \<Rightarrow> BestSnap64 option" where
  "snapStep64 e1 e2 bestSnap =
     (if areEdgesCompatible64 e1 e2 then
        (let d = midpointDistance64 e1 e2 in
         case bestSnap of
           None \<Rightarrow> Some \<lparr>bestEdge1 = e1, bestEdge2 = e2, bestDistance = d\<rparr>
         | Some b \<Rightarrow> if flt d (bestDistance b)
                     then Some \<lparr>bestEdge1 = e1, bestEdge2 = e2, bestDistance = d\<rparr>
                     else Some b)
      else bestSnap)"

definition findBestSnap64 :: "Edge64 list \<Rightarrow> Edge64 list \<Rightarrow> BestSnap64 option" where
  "findBestSnap64 edges1 edges2 =
     fold (\<lambda>e1 best. fold (\<lambda>e2 best'. snapStep64 e1 e2 best') edges2 best) edges1 None"

definition canTilesSnap64 :: "Tile64 \<Rightarrow> Tile64 \<Rightarrow> SnapResult64" where
  "canTilesSnap64 tile1 tile2 =
     (case findBestSnap64 (getShapeEdges64 tile1) (getShapeEdges64 tile2) of
        None \<Rightarrow> \<lparr>canSnap64 = False, snapPosition64 = None\<rparr>
      | Some b \<Rightarrow>
          (let offsetX = fsub (x64 (midpoint64 (bestEdge2 b))) (x64 (midpoint64 (bestEdge1 b)));
               offsetY = fsub (y64 (midpoint64 (bestEdge2 b))) (y64 (midpoint64 (bestEdge1 b)));
               separation = Fin 1;
               separationX = fmul (x64 (normal64 (bestEdge2 b))) separation;
               separationY = fmul (y64 (normal64 (bestEdge2 b))) separation
           in \<lparr>canSnap64 = True,
               snapPosition64 = Some \<lparr>x64 = fadd (fadd (tileX64 tile1) offsetX) separationX,
                                       y64 = fadd (fadd (tileY64 tile1) offsetY) separationY\<rparr>\<rparr>))"


text \<open>An unrotated tile with double coordinates, for the instances below.\<close>

definition placedTile64 :: "string \<Rightarrow> ShapeType \<Rightarrow> real \<Rightarrow> real \<Rightarrow> Tile64" where
  "placedTile64 tid k px py =
     \<lparr>id64 = tid, shape64 = k, tileX64 = Fin px, tileY64 = Fin py, rotation64 = Fin 0,
      color64 = ''#ef4444'', isSymmetryMirror64 = None, originalId64 = None\<rparr>"

subsection \<open>Auxiliary notions over binary64\<close>

definition edge64 :: "real \<Rightarrow> real \<Rightarrow> real \<Rightarrow> real \<Rightarrow> real \<Rightarrow> real \<Rightarrow> real \<Rightarrow> real \<Rightarrow> real \<Rightarrow> Edge64" where
  "edge64 sx sy ex ey len mx my nx ny =
     \<lparr>start64 = \<lparr>x64 = Fin sx, y64 = Fin sy\<rparr>, end64 = \<lparr>x64 = Fin ex, y64 = Fin ey\<rparr>,
      length64 = Fin len, midpoint64 = \<lparr>x64 = Fin mx, y64 = Fin my\<rparr>,
      normal64 = \<lparr>x64 = Fin nx, y64 = Fin ny\<rparr>\<rparr>"


definition snapInv64 :: "Edge64 set \<Rightarrow> Edge64 set \<Rightarrow> BestSnap64 option \<Rightarrow> bool" where
  "snapInv64 S1 S2 best =
     (case best of None \<Rightarrow> True
      | Some b \<Rightarrow> bestEdge1 b \<in> S1 \<and> bestEdge2 b \<in> S2 \<and>
                  areEdgesCompatible64 (bestEdge1 b) (bestEdge2 b))"

text \<open>
  For the error analysis: the double \<open>v\<close> is finite and within \<open>e\<close> of the real
  number \<open>a\<close>.
\<close>

definition approx :: "num \<Rightarrow> real \<Rightarrow> real \<Rightarrow> bool" where
  "approx v a e = (\<exists>r. v = Fin r \<and> \<bar>r - a\<bar> \<le> e)"

text \<open>
  The angle that \<^verbatim>\<open>transform\<close> passes to \<^verbatim>\<open>Math.cos\<close> and \<^verbatim>\<open>Math.sin\<close> for a tile
  of rotation \<open>r\<close>: \<^verbatim>\<open>(tile.rotation * Math.PI) / 180\<close> in doubles.
\<close>

definition tileAngle :: "real \<Rightarrow> real" where
  "tileAngle r = rnd (rnd (r * rnd pi) / 180)"

text \<open>
  The consecutive vertex pairs of the catalogue as the doubles that the literals of
  \<^verbatim>\<open>getShapeEdges\<close> denote, in the order of \<open>localSegments\<close>.
\<close>

definition localSegments64 :: "ShapeType \<Rightarrow> (num \<times> num \<times> num \<times> num) list" where
  "localSegments64 k =
     (case k of
        Triangle \<Rightarrow> [(Fin 0, Fin (- 30), Fin 25, Fin 15), (Fin 25, Fin 15, Fin (- 25), Fin 15),
                     (Fin (- 25), Fin 15, Fin 0, Fin (- 30))]
      | Square \<Rightarrow> [(Fin (- 25), Fin (- 25), Fin 25, Fin (- 25)), (Fin 25, Fin (- 25), Fin 25, Fin 25),
                   (Fin 25, Fin 25, Fin (- 25), Fin 25), (Fin (- 25), Fin 25, Fin (- 25), Fin (- 25))]
      | Hexagon \<Rightarrow> [(Fin 50, Fin 0, Fin 25, lit (433 / 10)),
                    (Fin 25, lit (433 / 10), Fin (- 25), lit (433 / 10)),
                    (Fin (- 25), lit (433 / 10), Fin (- 50), Fin 0),
                    (Fin (- 50), Fin 0, Fin (- 25), fneg (lit (433 / 10))),
                    (Fin (- 25), fneg (lit (433 / 10)), Fin 25, fneg (lit (433 / 10))),
                    (Fin 25, fneg (lit (433 / 10)), Fin 50, Fin 0)]
      | Diamond \<Rightarrow> [(Fin 0, Fin (- 30), Fin 30, Fin 0), (Fin 30, Fin 0, Fin 0, Fin 30),
                    (Fin 0, Fin 30, Fin (- 30), Fin 0), (Fin (- 30), Fin 0, Fin 0, Fin (- 30))])"

text \<open>A segment of doubles next to the segment of reals it stands for.\<close>

definition approxSeg :: "num \<times> num \<times> num \<times> num \<Rightarrow> real \<times> real \<times> real \<times> real \<Rightarrow> bool" where
  "approxSeg f s =
     (case f of (fa, fb, fc, fd) \<Rightarrow> case s of (a, b, c, d) \<Rightarrow>
        approx fa a (1 / 2 ^ 47) \<and> approx fb b (1 / 2 ^ 47) \<and>
        approx fc c (1 / 2 ^ 47) \<and> approx fd d (1 / 2 ^ 47))"

text \<open>The bounds on one catalogue segment that the error analysis uses.\<close>

definition segOk :: "real \<times> real \<times> real \<times> real \<Rightarrow> bool" where
  "segOk s =
     (case s of (ax, ay, bx, by) \<Rightarrow>
        \<bar>ax\<bar> \<le> 50 \<and> \<bar>ay\<bar> \<le> 50 \<and> \<bar>bx\<bar> \<le> 50 \<and> \<bar>by\<bar> \<le> 50 \<and>
        1700 \<le> (bx - ax) * (bx - ax) + (by - ay) * (by - ay) \<and>
        (bx - ax) * (bx - ax) + (by - ay) * (by - ay) \<le> 2704 \<and>
        1400 \<le> (by - ay) * (ax + bx) - (bx - ax) * (ay + by))"

text \<open>
  Two catalogue segments are apart when their midpoints are more than \<open>\<surd>1700\<close> apart or
  the cosine of the angle between their (unflipped) normals is at least \<open>-0.6\<close>.
\<close>

definition segsApart :: "real \<times> real \<times> real \<times> real \<Rightarrow> real \<times> real \<times> real \<times> real \<Rightarrow> bool" where
  "segsApart s s' =
     (case s of (ax, ay, bx, by) \<Rightarrow> case s' of (ax', ay', bx', by') \<Rightarrow>
        (let g = (bx - ax) * (bx' - ax') + (by - ay) * (by' - ay')
         in 1700 \<le> ((ax + bx) / 2 - (ax' + bx') / 2) * ((ax + bx) / 2 - (ax' + bx') / 2) +
                     ((ay + by) / 2 - (ay' + by') / 2) * ((ay + by) / 2 - (ay' + by') / 2) \<or>
            0 \<le> g \<or>
            100 * (g * g) \<le> 36 * (((bx - ax) * (bx - ax) + (by - ay) * (by - ay)) *
                                     ((bx' - ax') * (bx' - ax') + (by' - ay') * (by' - ay')))))"

section \<open>Geometry of the edges of one tile\<close>

subsection \<open>Rotations preserve lengths, dot products and cross products\<close>

text \<open>
  The rotation enters \<open>transform\<close> only through \<open>c = cos \<theta>\<close> and \<open>s = sin \<theta>\<close>,
  and the proofs use nothing about them but \<open>c\<^sup>2 + s\<^sup>2 = 1\<close>.
\<close>

lemma rot_sq:
  fixes c s u v :: real
  assumes "c\<^sup>2 + s\<^sup>2 = 1"
  shows "(u * c - v * s) * (u * c - v * s) + (u * s + v * c) * (u * s + v * c) = u * u + v * v"
proof -
  have "(u * c - v * s) * (u * c - v * s) + (u * s + v * c) * (u * s + v * c)
        = (u * u + v * v) * (c\<^sup>2 + s\<^sup>2)"
    by (simp add: power2_eq_square algebra_simps)
  with assms show ?thesis by simp
qed

lemma rot_dot:
  fixes c s u v u' v' :: real
  assumes "c\<^sup>2 + s\<^sup>2 = 1"
  shows "(u * c - v * s) * (u' * c - v' * s) + (u * s + v * c) * (u' * s + v' * c) = u * u' + v * v'"
proof -
  have "(u * c - v * s) * (u' * c - v' * s) + (u * s + v * c) * (u' * s + v' * c)
        = (u * u' + v * v') * (c\<^sup>2 + s\<^sup>2)"
    by (simp add: power2_eq_square algebra_simps)
  with assms show ?thesis by simp
qed

lemma rot_cross:
  fixes c s u v u' v' :: real
  assumes "c\<^sup>2 + s\<^sup>2 = 1"
  shows "(u * s + v * c) * (u' * c - v' * s) - (u * c - v * s) * (u' * s + v' * c) = v * u' - u * v'"
proof -
  have "(u * s + v * c) * (u' * c - v' * s) - (u * c - v * s) * (u' * s + v' * c)
        = (v * u' - u * v') * (c\<^sup>2 + s\<^sup>2)"
    by (simp add: power2_eq_square algebra_simps)
  with assms show ?thesis by simp
qed

lemma div_dot:
  fixes p q r w L :: real
  shows "p / L * (- r) + (- q / L) * (- w) = - (p * r - q * w) / L"
  by (simp add: diff_divide_distrib)

subsection \<open>The fields of a tile edge in terms of the catalogue segment\<close>

lemma tileEdge_length:
  "edge_length (tileEdge t ax ay bx by) = sqrt ((bx - ax) * (bx - ax) + (by - ay) * (by - ay))"
proof -
  let ?c = "cos (rotation t * pi / 180)" and ?s = "sin (rotation t * pi / 180)"
  have cs: "?c\<^sup>2 + ?s\<^sup>2 = 1" by simp
  have dx: "pt_x (transform t bx by) - pt_x (transform t ax ay) = (bx - ax) * ?c - (by - ay) * ?s"
    by (simp add: transform_def Let_def algebra_simps)
  have dy: "pt_y (transform t bx by) - pt_y (transform t ax ay) = (bx - ax) * ?s + (by - ay) * ?c"
    by (simp add: transform_def Let_def algebra_simps)
  show ?thesis
    unfolding tileEdge_def makeEdge_def Let_def
    by (simp only: Edge.select_convs dx dy rot_sq [OF cs])
qed

lemma tileEdge_midpoint:
  "midpoint (tileEdge t ax ay bx by) = transform t ((ax + bx) / 2) ((ay + by) / 2)"
  by (simp add: tileEdge_def makeEdge_def transform_def Let_def algebra_simps add_divide_distrib diff_divide_distrib)

lemma tileEdge_ends:
  "edge_start (tileEdge t ax ay bx by) = transform t ax ay"
  "edge_end (tileEdge t ax ay bx by) = transform t bx by"
  by (simp_all add: tileEdge_def makeEdge_def Let_def)

lemma tileEdge_normal:
  fixes t :: Tile and ax ay bx "by" :: real
  assumes nz: "ax \<noteq> bx \<or> ay \<noteq> by"
  defines "L \<equiv> sqrt ((bx - ax) * (bx - ax) + (by - ay) * (by - ay))"
  defines "c \<equiv> cos (rotation t * pi / 180)" and "s \<equiv> sin (rotation t * pi / 180)"
  shows "normal (tileEdge t ax ay bx by) =
         \<lparr>pt_x = localFlip ax ay bx by * (((bx - ax) * s + (by - ay) * c) / L),
          pt_y = localFlip ax ay bx by * (- ((bx - ax) * c - (by - ay) * s) / L)\<rparr>"
proof -
  have cs: "c\<^sup>2 + s\<^sup>2 = 1" by (simp add: c_def s_def)
  have dx: "pt_x (transform t bx by) - pt_x (transform t ax ay) = (bx - ax) * c - (by - ay) * s"
    by (simp add: transform_def Let_def algebra_simps c_def s_def)
  have dy: "pt_y (transform t bx by) - pt_y (transform t ax ay) = (bx - ax) * s + (by - ay) * c"
    by (simp add: transform_def Let_def algebra_simps c_def s_def)
  have len: "sqrt (((bx - ax) * c - (by - ay) * s) * ((bx - ax) * c - (by - ay) * s) +
                   ((bx - ax) * s + (by - ay) * c) * ((bx - ax) * s + (by - ay) * c)) = L"
    by (simp only: rot_sq [OF cs] L_def)
  have "(bx - ax) * (bx - ax) + (by - ay) * (by - ay) > 0"
    using nz by (metis add_pos_nonneg add_nonneg_pos zero_le_square mult_eq_0_iff
        less_le right_minus_eq)
  then have Lpos: "L > 0" by (simp add: L_def)
  have cx: "tile_x t - (pt_x (transform t ax ay) + pt_x (transform t bx by)) / 2
            = - (((ax + bx) / 2) * c - ((ay + by) / 2) * s)"
    by (simp add: transform_def Let_def c_def s_def algebra_simps add_divide_distrib diff_divide_distrib)
  have cy: "tile_y t - (pt_y (transform t ax ay) + pt_y (transform t bx by)) / 2
            = - (((ax + bx) / 2) * s + ((ay + by) / 2) * c)"
    by (simp add: transform_def Let_def c_def s_def algebra_simps add_divide_distrib diff_divide_distrib)
  have dot: "((bx - ax) * s + (by - ay) * c) / L * (- (((ax + bx) / 2) * c - ((ay + by) / 2) * s))
           + (- ((bx - ax) * c - (by - ay) * s) / L) * (- (((ax + bx) / 2) * s + ((ay + by) / 2) * c))
           = - ((by - ay) * (ax + bx) - (bx - ax) * (ay + by)) / (2 * L)"
  proof -
    have "((bx - ax) * s + (by - ay) * c) / L * (- (((ax + bx) / 2) * c - ((ay + by) / 2) * s))
           + (- ((bx - ax) * c - (by - ay) * s) / L) * (- (((ax + bx) / 2) * s + ((ay + by) / 2) * c))
        = - (((bx - ax) * s + (by - ay) * c) * (((ax + bx) / 2) * c - ((ay + by) / 2) * s)
           - ((bx - ax) * c - (by - ay) * s) * (((ax + bx) / 2) * s + ((ay + by) / 2) * c)) / L"
      by (rule div_dot)
    also have "\<dots> = - ((by - ay) * ((ax + bx) / 2) - (bx - ax) * ((ay + by) / 2)) / L"
      by (simp only: rot_cross [OF cs])
    also have "\<dots> = - ((by - ay) * (ax + bx) - (bx - ax) * (ay + by)) / (2 * L)"
      using Lpos by (simp add: field_simps)
    finally show ?thesis .
  qed
  have flip: "(- ((by - ay) * (ax + bx) - (bx - ax) * (ay + by)) / (2 * L) > 0)
              = ((by - ay) * (ax + bx) - (bx - ax) * (ay + by) < 0)"
    using Lpos by (simp add: zero_less_divide_iff)
  show ?thesis
    unfolding tileEdge_def makeEdge_def Let_def
    apply (simp only: Point.select_convs Edge.select_convs dx dy len cx cy dot flip)
    apply (simp add: localFlip_def add_divide_distrib diff_divide_distrib)
    done
qed


subsection \<open>Two edges of one tile: midpoint distance and normal dot product\<close>

lemma transform_dist:
  "(pt_x (transform t u v) - pt_x (transform t u' v'))\<^sup>2 +
   (pt_y (transform t u v) - pt_y (transform t u' v'))\<^sup>2 = (u - u') * (u - u') + (v - v') * (v - v')"
proof -
  let ?c = "cos (rotation t * pi / 180)" and ?s = "sin (rotation t * pi / 180)"
  have cs: "?c\<^sup>2 + ?s\<^sup>2 = 1" by simp
  have dx: "pt_x (transform t u v) - pt_x (transform t u' v') = (u - u') * ?c - (v - v') * ?s"
    by (simp add: transform_def Let_def algebra_simps)
  have dy: "pt_y (transform t u v) - pt_y (transform t u' v') = (u - u') * ?s + (v - v') * ?c"
    by (simp add: transform_def Let_def algebra_simps)
  show ?thesis
    by (simp only: dx dy power2_eq_square rot_sq [OF cs])
qed

lemma tileEdge_midpointDistance:
  "midpointDistance (tileEdge t ax ay bx by) (tileEdge t ax' ay' bx' by') =
     sqrt (((ax + bx) / 2 - (ax' + bx') / 2) * ((ax + bx) / 2 - (ax' + bx') / 2) +
           ((ay + by) / 2 - (ay' + by') / 2) * ((ay + by) / 2 - (ay' + by') / 2))"
  by (simp only: midpointDistance_def tileEdge_midpoint transform_dist)

lemma tileEdge_normal_dot:
  fixes t :: Tile and ax ay bx "by" ax' ay' bx' by' :: real
  assumes nz: "ax \<noteq> bx \<or> ay \<noteq> by" and nz': "ax' \<noteq> bx' \<or> ay' \<noteq> by'"
  shows "pt_x (normal (tileEdge t ax ay bx by)) * pt_x (normal (tileEdge t ax' ay' bx' by')) +
         pt_y (normal (tileEdge t ax ay bx by)) * pt_y (normal (tileEdge t ax' ay' bx' by')) =
         localFlip ax ay bx by * localFlip ax' ay' bx' by' *
           ((bx - ax) * (bx' - ax') + (by - ay) * (by' - ay')) /
           (sqrt ((bx - ax) * (bx - ax) + (by - ay) * (by - ay)) *
            sqrt ((bx' - ax') * (bx' - ax') + (by' - ay') * (by' - ay')))"
proof -
  let ?c = "cos (rotation t * pi / 180)" and ?s = "sin (rotation t * pi / 180)"
  have cs: "?c\<^sup>2 + ?s\<^sup>2 = 1" by simp
  define L where "L = sqrt ((bx - ax) * (bx - ax) + (by - ay) * (by - ay))"
  define L' where "L' = sqrt ((bx' - ax') * (bx' - ax') + (by' - ay') * (by' - ay'))"
  define f where "f = localFlip ax ay bx by"
  define f' where "f' = localFlip ax' ay' bx' by'"
  have gen: "f * (p / L) * (f' * (p' / L')) + f * (- q / L) * (f' * (- q' / L'))
             = f * f' * (q * q' + p * p') / (L * L')" for p q p' q' :: real
    by (simp add: algebra_simps add_divide_distrib)
  have "f * (((bx - ax) * ?s + (by - ay) * ?c) / L) * (f' * (((bx' - ax') * ?s + (by' - ay') * ?c) / L'))
      + f * (- ((bx - ax) * ?c - (by - ay) * ?s) / L) * (f' * (- ((bx' - ax') * ?c - (by' - ay') * ?s) / L'))
      = f * f' * (((bx - ax) * ?c - (by - ay) * ?s) * ((bx' - ax') * ?c - (by' - ay') * ?s)
               + ((bx - ax) * ?s + (by - ay) * ?c) * ((bx' - ax') * ?s + (by' - ay') * ?c)) / (L * L')"
    by (rule gen)
  also have "\<dots> = f * f' * ((bx - ax) * (bx' - ax') + (by - ay) * (by' - ay')) / (L * L')"
    by (simp only: rot_dot [OF cs])
  finally show ?thesis
    by (simp only: tileEdge_normal [OF nz] tileEdge_normal [OF nz'] Point.select_convs
        L_def L'_def f_def f'_def)
qed

lemma dot_gate_necessary:
  fixes g A B :: real
  assumes A: "0 < A" and B: "0 < B" and le: "g / (sqrt A * sqrt B) \<le> - (9 / 10)"
  shows "g < 0 \<and> 81 * (A * B) \<le> 100 * (g * g)"
proof -
  define P where "P = sqrt A * sqrt B"
  have pos: "0 < P" using A B by (simp add: P_def)
  have PP: "P * P = A * B"
  proof -
    have "P * P = (sqrt A * sqrt A) * (sqrt B * sqrt B)"
      unfolding P_def by (simp only: mult_ac)
    also have "\<dots> = A * B" using A B by simp
    finally show ?thesis .
  qed
  from le have "g / P \<le> - (9 / 10)" by (simp only: P_def)
  with pos have g: "g \<le> - (9 / 10) * P"
    by (simp add: pos_divide_le_eq)
  have neg: "g < 0" using g pos by linarith
  have a: "0 \<le> 9 * P" using pos by simp
  have b: "9 * P \<le> - (10 * g)" using g by simp
  have "(9 * P) * (9 * P) \<le> (- (10 * g)) * (- (10 * g))"
    using b b a a by (rule mult_mono')
  then have "81 * (P * P) \<le> 100 * (g * g)" by simp
  with neg PP show ?thesis by simp
qed

lemma sum_squares_pos:
  fixes p q :: real
  assumes "p \<noteq> 0 \<or> q \<noteq> 0"
  shows "0 < p * p + q * q"
  using assms by (metis add_pos_nonneg add_nonneg_pos zero_le_square less_le mult_eq_0_iff)

lemma tileEdge_gates_local:
  fixes t :: Tile and ax ay bx "by" ax' ay' bx' by' :: real
  assumes nz: "ax \<noteq> bx \<or> ay \<noteq> by" and nz': "ax' \<noteq> bx' \<or> ay' \<noteq> by'"
    and d: "midpointDistance (tileEdge t ax ay bx by) (tileEdge t ax' ay' bx' by') \<le> 40"
    and n: "normalDot (tileEdge t ax ay bx by) (tileEdge t ax' ay' bx' by') \<le> - (9 / 10)"
  shows "localMayBond ax ay bx by ax' ay' bx' by'"
proof -
  from d have "sqrt (((ax + bx) / 2 - (ax' + bx') / 2) * ((ax + bx) / 2 - (ax' + bx') / 2) +
           ((ay + by) / 2 - (ay' + by') / 2) * ((ay + by) / 2 - (ay' + by') / 2)) \<le> 40"
    by (simp only: tileEdge_midpointDistance)
  then have "((ax + bx) / 2 - (ax' + bx') / 2) * ((ax + bx) / 2 - (ax' + bx') / 2) +
           ((ay + by) / 2 - (ay' + by') / 2) * ((ay + by) / 2 - (ay' + by') / 2) \<le> 40\<^sup>2"
    by (rule sqrt_le_D)
  then have q: "((ax + bx) / 2 - (ax' + bx') / 2) * ((ax + bx) / 2 - (ax' + bx') / 2) +
           ((ay + by) / 2 - (ay' + by') / 2) * ((ay + by) / 2 - (ay' + by') / 2) \<le> 1600"
    by simp
  have A: "0 < (bx - ax) * (bx - ax) + (by - ay) * (by - ay)"
    using nz by (intro sum_squares_pos) auto
  have B: "0 < (bx' - ax') * (bx' - ax') + (by' - ay') * (by' - ay')"
    using nz' by (intro sum_squares_pos) auto
  from n have "localFlip ax ay bx by * localFlip ax' ay' bx' by' *
           ((bx - ax) * (bx' - ax') + (by - ay) * (by' - ay')) /
           (sqrt ((bx - ax) * (bx - ax) + (by - ay) * (by - ay)) *
            sqrt ((bx' - ax') * (bx' - ax') + (by' - ay') * (by' - ay'))) \<le> - (9 / 10)"
    by (simp only: normalDot_def tileEdge_normal_dot [OF nz nz'])
  from dot_gate_necessary [OF A B this] q show ?thesis
    by (simp only: localMayBond_def Let_def)
qed

subsection \<open>The catalogue: no two edges of one tile pass gates 2 and 3\<close>

lemma upt_3: "[0..<3] = [0, 1, 2]"
  by (simp add: upt_rec)

lemma upt_4: "[0..<4] = [0, 1, 2, 3]"
  by (simp add: upt_rec)

lemma upt_6: "[0..<6] = [0, 1, 2, 3, 4, 5]"
  by (simp add: upt_rec)

lemma getShapeEdges_local:
  "getShapeEdges t = map (\<lambda>(ax, ay, bx, by). tileEdge t ax ay bx by) (localSegments (shape t))"
  by (cases "shape t")
     (simp_all add: getShapeEdges_def edgesOfVertices_def shapeVertices_def localSegments_def
        tileEdge_def upt_3 upt_4 upt_6)

lemma localSegments_nondegenerate_all:
  "list_all (\<lambda>(ax, ay, bx, by). ax \<noteq> bx \<or> ay \<noteq> by) (localSegments k)"
  by (cases k) (simp_all add: localSegments_def)

lemma localSegments_nondegenerate:
  "(ax, ay, bx, by) \<in> set (localSegments k) \<Longrightarrow> ax \<noteq> bx \<or> ay \<noteq> by"
  using localSegments_nondegenerate_all [of k] by (auto simp: list_all_iff)

lemma localSegments_no_bond_all:
  "list_all (\<lambda>(ax, ay, bx, by).
     list_all (\<lambda>(ax', ay', bx', by'). \<not> localMayBond ax ay bx by ax' ay' bx' by')
       (localSegments k)) (localSegments k)"
  by (cases k) (simp_all add: localSegments_def localMayBond_def localFlip_def Let_def)

lemma localSegments_no_bond:
  "(ax, ay, bx, by) \<in> set (localSegments k) \<Longrightarrow> (ax', ay', bx', by') \<in> set (localSegments k) \<Longrightarrow>
   \<not> localMayBond ax ay bx by ax' ay' bx' by'"
  using localSegments_no_bond_all [of k] by (fastforce simp: list_all_iff)

lemma same_tile_gates:
  assumes "e1 \<in> set (getShapeEdges t)" and "e2 \<in> set (getShapeEdges t)"
  shows "40 < midpointDistance e1 e2 \<or> - (9 / 10) < normalDot e1 e2"
proof (rule ccontr)
  assume "\<not> (40 < midpointDistance e1 e2 \<or> - (9 / 10) < normalDot e1 e2)"
  then have d: "midpointDistance e1 e2 \<le> 40" and n: "normalDot e1 e2 \<le> - (9 / 10)"
    by simp_all
  from assms(1) obtain ax ay bx "by" where s1: "(ax, ay, bx, by) \<in> set (localSegments (shape t))"
    and e1: "e1 = tileEdge t ax ay bx by"
    by (auto simp: getShapeEdges_local)
  from assms(2) obtain ax' ay' bx' by' where s2: "(ax', ay', bx', by') \<in> set (localSegments (shape t))"
    and e2: "e2 = tileEdge t ax' ay' bx' by'"
    by (auto simp: getShapeEdges_local)
  have "localMayBond ax ay bx by ax' ay' bx' by'"
    using d n unfolding e1 e2
    by (rule tileEdge_gates_local [OF localSegments_nondegenerate [OF s1]
          localSegments_nondegenerate [OF s2]])
  with localSegments_no_bond [OF s1 s2] show False by simp
qed

lemma compatible_gates:
  assumes "areEdgesCompatible e1 e2"
  shows "midpointDistance e1 e2 \<le> 40 \<and> normalDot e1 e2 \<le> - (9 / 10)"
  using assms
  by (simp add: areEdgesCompatible_def normalDot_def Let_def not_less split: if_splits)

lemma same_tile_incompatible:
  assumes "e1 \<in> set (getShapeEdges t)" and "e2 \<in> set (getShapeEdges t)"
  shows "\<not> areEdgesCompatible e1 e2"
  using same_tile_gates [OF assms] compatible_gates [of e1 e2] by auto

subsection \<open>Unrotated squares\<close>

lemma sqrt_gt_40_iff: "(40 < sqrt x) = (1600 < x)"
proof -
  have "sqrt 1600 = 40" by (rule real_sqrt_unique) simp_all
  then have "(40 < sqrt x) = (sqrt 1600 < sqrt x)" by simp
  also have "\<dots> = (1600 < x)" by (rule real_sqrt_less_iff)
  finally show ?thesis .
qed

lemma sqrt_2500: "sqrt 2500 = 50"
  by (rule real_sqrt_unique) simp_all

lemma sqrt_100: "sqrt 100 = 10"
  by (rule real_sqrt_unique) simp_all

lemma transform_rot0:
  "rotation t = 0 \<Longrightarrow> transform t lx ly = \<lparr>pt_x = tile_x t + lx, pt_y = tile_y t + ly\<rparr>"
  by (simp add: transform_def)

lemma square_edges_rot0: "shape t = Square \<Longrightarrow> rotation t = 0 \<Longrightarrow> getShapeEdges t =
  [\<lparr>edge_start = \<lparr>pt_x = tile_x t - 25, pt_y = tile_y t - 25\<rparr>, edge_end = \<lparr>pt_x = tile_x t + 25, pt_y = tile_y t - 25\<rparr>,
    edge_length = 50, midpoint = \<lparr>pt_x = tile_x t, pt_y = tile_y t - 25\<rparr>, normal = \<lparr>pt_x = 0, pt_y = -1\<rparr>\<rparr>,
   \<lparr>edge_start = \<lparr>pt_x = tile_x t + 25, pt_y = tile_y t - 25\<rparr>, edge_end = \<lparr>pt_x = tile_x t + 25, pt_y = tile_y t + 25\<rparr>,
    edge_length = 50, midpoint = \<lparr>pt_x = tile_x t + 25, pt_y = tile_y t\<rparr>, normal = \<lparr>pt_x = 1, pt_y = 0\<rparr>\<rparr>,
   \<lparr>edge_start = \<lparr>pt_x = tile_x t + 25, pt_y = tile_y t + 25\<rparr>, edge_end = \<lparr>pt_x = tile_x t - 25, pt_y = tile_y t + 25\<rparr>,
    edge_length = 50, midpoint = \<lparr>pt_x = tile_x t, pt_y = tile_y t + 25\<rparr>, normal = \<lparr>pt_x = 0, pt_y = 1\<rparr>\<rparr>,
   \<lparr>edge_start = \<lparr>pt_x = tile_x t - 25, pt_y = tile_y t + 25\<rparr>, edge_end = \<lparr>pt_x = tile_x t - 25, pt_y = tile_y t - 25\<rparr>,
    edge_length = 50, midpoint = \<lparr>pt_x = tile_x t - 25, pt_y = tile_y t\<rparr>, normal = \<lparr>pt_x = - 1, pt_y = 0\<rparr>\<rparr>]"
  by (simp add: getShapeEdges_def edgesOfVertices_def shapeVertices_def upt_4 transform_rot0
      makeEdge_def Let_def sqrt_2500)


lemma squares_snap_value:
  assumes "shape a = Square" "rotation a = 0" "tile_x a = 300" "tile_y a = 300"
      and "shape b = Square" "rotation b = 0" "tile_x b = 360" "tile_y b = 300"
  shows "canTilesSnap a b = \<lparr>canSnap = True, snapPosition = Some \<lparr>pt_x = 309, pt_y = 300\<rparr>\<rparr>"
  using assms
  by (simp add: canTilesSnap_def findBestSnap_def square_edges_rot0 snapStep_def areEdgesCompatible_def
      midpointDistance_def Let_def sqrt_gt_40_iff sqrt_100 sqrt_2500 power2_eq_square)


subsection \<open>Moving a tile moves its edges\<close>







subsection \<open>Catalogue edges have unit normals and positive length\<close>



lemma getShapeEdges_length_pos:
  assumes "e \<in> set (getShapeEdges t)"
  shows "0 < edge_length e"
proof -
  from assms obtain ax ay bx "by" where s: "(ax, ay, bx, by) \<in> set (localSegments (shape t))"
    and e: "e = tileEdge t ax ay bx by"
    by (auto simp: getShapeEdges_local)
  have "0 < (bx - ax) * (bx - ax) + (by - ay) * (by - ay)"
    using localSegments_nondegenerate [OF s] by (intro sum_squares_pos) auto
  then show ?thesis unfolding e by (simp add: tileEdge_length)
qed

subsection \<open>The search of canTilesSnap\<close>





lemma inner_fold_none:
  "\<forall>e2 \<in> set es2. \<not> areEdgesCompatible e1 e2 \<Longrightarrow>
   fold (\<lambda>e2 best'. snapStep e1 e2 best') es2 best = best"
  by (induction es2 arbitrary: best) (simp_all add: snapStep_def)

lemma findBestSnap_None:
  assumes "\<forall>e1 \<in> set es1. \<forall>e2 \<in> set es2. \<not> areEdgesCompatible e1 e2"
  shows "findBestSnap es1 es2 = None"
proof -
  have "fold (\<lambda>e1 best. fold (\<lambda>e2 best'. snapStep e1 e2 best') es2 best) es1 best = best" for best
    using assms by (induction es1 arbitrary: best) (simp_all add: inner_fold_none)
  then show ?thesis by (simp add: findBestSnap_def)
qed


subsection \<open>Further facts about getShapeEdges\<close>

lemma getShapeEdges_same_geometry:
  assumes "shape t' = shape t" "tile_x t' = tile_x t" "tile_y t' = tile_y t" "rotation t' = rotation t"
  shows "getShapeEdges t' = getShapeEdges t"
proof -
  have tr: "transform t' = transform t"
    using assms by (intro ext) (simp add: transform_def)
  have mk: "makeEdge t' = makeEdge t"
    using assms by (intro ext) (simp add: makeEdge_def)
  have sv: "shapeVertices t' = shapeVertices t"
    unfolding shapeVertices_def tr assms(1) ..
  show ?thesis
    unfolding getShapeEdges_def edgesOfVertices_def sv mk ..
qed

lemma makeEdge_outward: "inwardDot t (makeEdge t a b) \<le> 0"
  by (simp add: inwardDot_def makeEdge_def Let_def not_less)

lemma in_edgesOfVertices: "e \<in> set (edgesOfVertices t vs) \<Longrightarrow> \<exists>a b. e = makeEdge t a b"
  by (auto simp: edgesOfVertices_def)

lemma getShapeEdges_count:
  "length (getShapeEdges t) = (case shape t of Triangle \<Rightarrow> 3 | Square \<Rightarrow> 4 | Hexagon \<Rightarrow> 6 | Diamond \<Rightarrow> 4)"
  by (cases "shape t") (simp_all add: getShapeEdges_def edgesOfVertices_def shapeVertices_def)

section \<open>Binary64: rounding, evaluation and structure\<close>

lemma roundHalfEven_of_int: "roundHalfEven (of_int z) = z"
  by (simp add: roundHalfEven_def)

lemma roundHalfEven_minus: "roundHalfEven (- q) = - roundHalfEven q"
proof (cases "q = of_int \<lfloor>q\<rfloor>")
  case True
  then obtain z where "q = of_int z" ..
  then show ?thesis
    by (simp add: roundHalfEven_of_int flip: of_int_minus)
next
  case False
  define f where "f = \<lfloor>q\<rfloor>"
  define r where "r = q - of_int f"
  have fb: "of_int f \<le> q" "q < of_int f + 1"
    unfolding f_def by linarith+
  have "of_int f \<noteq> q" unfolding f_def using False by (rule not_sym)
  with fb have r: "0 < r" "r < 1"
    unfolding r_def by linarith+
  have q: "q = of_int f + r" by (simp add: r_def)
  have fl: "\<lfloor>- q\<rfloor> = - f - 1"
  proof (rule floor_unique)
    show "of_int (- f - 1) \<le> - q" using r by (simp add: q)
    show "- q < of_int (- f - 1) + 1" using r by (simp add: q)
  qed
  have r': "- q - of_int (- f - 1) = 1 - r" by (simp add: q)
  have par: "even (- f - 1) = odd f" by simp
  have lhs: "roundHalfEven (- q) =
      (if 1 - r < 1 / 2 then - f - 1 else if 1 / 2 < 1 - r then - f - 1 + 1
       else if odd f then - f - 1 else - f - 1 + 1)"
    unfolding roundHalfEven_def Let_def fl r' par ..
  have rhs: "roundHalfEven q =
      (if r < 1 / 2 then f else if 1 / 2 < r then f + 1 else if even f then f else f + 1)"
    unfolding roundHalfEven_def Let_def f_def [symmetric] r_def [symmetric] ..
  show ?thesis
    unfolding lhs rhs using r by (cases "r < 1 / 2"; cases "1 / 2 < r") auto
qed

lemma binExp_minus: "binExp (- x) = binExp x"
  by (simp add: binExp_def)

lemma ulp64_minus: "ulp64 (- x) = ulp64 x"
  by (simp add: ulp64_def binExp_minus)

lemma ulp64_pos: "0 < ulp64 x"
  by (simp add: ulp64_def)

lemma rnd_minus: "rnd (- x) = - rnd x"
  by (simp add: rnd_def ulp64_minus roundHalfEven_minus)

lemma binExp_eq:
  assumes "2 powr of_int e \<le> \<bar>x\<bar>" and "\<bar>x\<bar> < 2 powr of_int (e + 1)"
  shows "binExp x = e"
proof -
  have "(0::real) < 2 powr of_int e" by simp
  with assms(1) have "0 < \<bar>x\<bar>" by linarith
  then show ?thesis
    unfolding binExp_def using assms
    by (subst floor_log_eq_powr_iff) simp_all
qed

lemma rnd_eval:
  assumes "2 powr of_int e \<le> \<bar>x\<bar>" and "\<bar>x\<bar> < 2 powr of_int (e + 1)" and "- 1022 \<le> e"
  shows "rnd x = of_int (roundHalfEven (x / 2 powr of_int (e - 52))) * 2 powr of_int (e - 52)"
proof -
  have "(0::real) < 2 powr of_int e" by simp
  with assms(1) have "0 < \<bar>x\<bar>" by linarith
  then have nz: "x \<noteq> 0" by auto
  have m: "max (e - 52) (- 1074) = e - 52" using assms(3) by simp
  show ?thesis
    by (simp add: rnd_def nz ulp64_def binExp_eq [OF assms(1,2)] m)
qed

lemma rnd_eval_nat:
  fixes e :: nat
  assumes "2 ^ e \<le> \<bar>x\<bar>" and "\<bar>x\<bar> < 2 ^ Suc e" and "52 \<le> e"
  shows "rnd x = of_int (roundHalfEven (x / 2 ^ (e - 52))) * 2 ^ (e - 52)"
proof -
  have p1: "(2::real) powr real_of_int (int e) = 2 ^ e"
    by (subst powr_real_of_int) simp_all
  have p2: "(2::real) powr real_of_int (int e + 1) = 2 ^ Suc e"
    by (subst powr_real_of_int) (simp_all add: nat_add_distrib)
  have p3: "(2::real) powr real_of_int (int e - 52) = 2 ^ (e - 52)"
    by (subst powr_real_of_int) (use assms(3) in \<open>simp_all add: nat_diff_distrib\<close>)
  have a: "2 powr real_of_int (int e) \<le> \<bar>x\<bar>"
    unfolding p1 by (rule assms(1))
  have b: "\<bar>x\<bar> < 2 powr real_of_int (int e + 1)"
    unfolding p2 by (rule assms(2))
  have c: "- 1022 \<le> int e" by simp
  show ?thesis
    using rnd_eval [OF a b c] unfolding p3 .
qed

lemma rnd_representable:
  assumes x: "x = of_int m * 2 powr of_int k" and m: "\<bar>m\<bar> < 2 ^ 53" and k: "- 1074 \<le> k"
  shows "rnd x = x"
proof (cases "x = 0")
  case True
  then show ?thesis by (simp add: rnd_def)
next
  case False
  then have mz: "m \<noteq> 0" using x by auto
  define j where "j = max (binExp x - 52) (- 1074)"
  have absx: "\<bar>x\<bar> = of_int \<bar>m\<bar> * 2 powr of_int k"
    by (simp add: x abs_mult)
  have "\<bar>x\<bar> < 2 ^ 53 * 2 powr of_int k"
  proof -
    have "(of_int \<bar>m\<bar> :: real) < of_int (2 ^ 53)" using m by (simp only: of_int_less_iff)
    then show ?thesis unfolding absx by simp
  qed
  also have "\<dots> = 2 powr of_int (53 + k)"
    by (simp add: powr_add)
  finally have "log 2 \<bar>x\<bar> < of_int (53 + k)"
    using False by (subst log_less_iff) simp_all
  then have "binExp x < 53 + k"
    unfolding binExp_def by (simp add: floor_less_iff)
  then have jk: "j \<le> k" using k by (simp add: j_def)
  have pw: "(2::real) powr of_int k = 2 ^ nat (k - j) * 2 powr of_int j"
  proof -
    have "(2::real) powr of_int k = 2 powr (of_int (k - j) + of_int j)" by simp
    also have "\<dots> = 2 powr of_int (k - j) * 2 powr of_int j" by (simp only: powr_add)
    also have "(2::real) powr of_int (k - j) = 2 ^ nat (k - j)"
      by (subst powr_real_of_int) (use jk in auto)
    finally show ?thesis .
  qed
  have ulp: "ulp64 x = 2 powr of_int j"
    by (simp only: ulp64_def j_def)
  have xj: "x = of_int (m * 2 ^ nat (k - j)) * 2 powr of_int j"
    unfolding x by (subst pw) simp
  have "x / 2 powr of_int j = of_int (m * 2 ^ nat (k - j))"
    by (subst xj) simp
  then have "rnd x = of_int (m * 2 ^ nat (k - j)) * 2 powr of_int j"
    using False by (simp only: rnd_def roundHalfEven_of_int ulp if_False)
  also have "\<dots> = x"
    by (rule xj [symmetric])
  finally show ?thesis .
qed

lemma rnd_int:
  assumes "\<bar>n\<bar> < 2 ^ 53"
  shows "rnd (of_int n) = of_int n"
  using rnd_representable [of "of_int n" n 0] assms by simp

lemma maxDouble_big: "2 ^ 64 \<le> maxDouble"
proof -
  have "(2::real) ^ 64 \<le> 1 * 2 ^ 971" by (simp add: power_increasing)
  also have "\<dots> \<le> (2 ^ 53 - 1) * 2 ^ 971" by (intro mult_right_mono) simp_all
  finally show ?thesis by (simp add: maxDouble_def)
qed

lemma fin_Fin:
  assumes "rnd x = r" and "\<bar>r\<bar> \<le> 2 ^ 64"
  shows "fin x = Fin r"
  using assms maxDouble_big by (auto simp: fin_def Let_def)

lemma fin_exact:
  fixes k :: nat
  assumes "x = of_int m * 2 ^ k" and "\<bar>m\<bar> < 2 ^ 53" and "\<bar>x\<bar> \<le> 2 ^ 64"
  shows "fin x = Fin x"
proof -
  have "(2::real) powr real_of_int (int k) = 2 ^ k"
    by (subst powr_real_of_int) simp_all
  with assms(1) have "x = of_int m * 2 powr of_int (int k)" by simp
  then have "rnd x = x" using assms(2) by (rule rnd_representable) simp
  then show ?thesis using assms(3) by (rule fin_Fin)
qed

lemma fin_round:
  fixes e :: nat
  assumes "2 ^ e \<le> \<bar>x\<bar>" and "\<bar>x\<bar> < 2 ^ Suc e" and "52 \<le> e"
    and "of_int (roundHalfEven (x / 2 ^ (e - 52))) * 2 ^ (e - 52) = r" and "\<bar>r\<bar> \<le> 2 ^ 64"
  shows "fin x = Fin r"
proof -
  have "rnd x = r" using rnd_eval_nat [OF assms(1-3)] assms(4) by simp
  then show ?thesis using assms(5) by (rule fin_Fin)
qed

lemma rnd_numeral:
  assumes a: "numeral w < (2 ^ 53 :: real)"
  shows "rnd (numeral w) = numeral w"
proof -
  from a have "real_of_int (numeral w) < real_of_int (2 ^ 53)"
    by (simp only: of_int_numeral of_int_power)
  then have "(numeral w :: int) < 2 ^ 53" by (simp only: of_int_less_iff)
  then have "\<bar>numeral w :: int\<bar> < 2 ^ 53" by (simp only: abs_numeral)
  from rnd_int [OF this] show ?thesis by (simp only: of_int_numeral)
qed

lemma fin_numeral [simp]:
  assumes a: "numeral w < (2 ^ 53 :: real)"
  shows "fin (numeral w) = Fin (numeral w)"
proof -
  have p: "(2::real) ^ 53 \<le> 2 ^ 64" by (rule power_increasing) simp_all
  have "\<bar>numeral w :: real\<bar> = numeral w" by (rule abs_numeral)
  with a p have "\<bar>numeral w :: real\<bar> \<le> 2 ^ 64" by linarith
  with rnd_numeral [OF a] show ?thesis by (rule fin_Fin)
qed

lemma fin_neg_numeral [simp]:
  assumes a: "numeral w < (2 ^ 53 :: real)"
  shows "fin (- numeral w) = Fin (- numeral w)"
proof -
  have p: "(2::real) ^ 53 \<le> 2 ^ 64" by (rule power_increasing) simp_all
  have "\<bar>- numeral w :: real\<bar> = numeral w" by (simp only: abs_minus_cancel abs_numeral)
  with a p have b: "\<bar>- numeral w :: real\<bar> \<le> 2 ^ 64" by linarith
  have "rnd (- numeral w) = - numeral w"
    by (simp only: rnd_minus rnd_numeral [OF a])
  then show ?thesis using b by (rule fin_Fin)
qed

lemma fin_0 [simp]: "fin 0 = Fin 0"
  by (simp add: fin_def rnd_def maxDouble_def)

lemma fin_1 [simp]: "fin 1 = Fin 1"
  using fin_numeral [of num.One] by simp

lemma fin_neg_1 [simp]: "fin (- 1) = Fin (- 1)"
  using fin_neg_numeral [of num.One] by simp

lemma fin_288230376151711719 [simp]: "fin 288230376151711719 = Fin 288230376151711712"
  by (rule fin_round [where e = 57]) (simp_all add: roundHalfEven_def)

lemma fin_288230376151711769 [simp]: "fin 288230376151711769 = Fin 288230376151711744"
  by (rule fin_round [where e = 58]) (simp_all add: roundHalfEven_def)

lemma fin_288230376151711744 [simp]: "fin 288230376151711744 = Fin 288230376151711744"
  by (rule fin_exact [where m = 1 and k = 58]) simp_all

lemma fin_576460752303423456 [simp]: "fin 576460752303423456 = Fin 576460752303423488"
  by (rule fin_round [where e = 58]) (simp_all add: roundHalfEven_def)

lemma fin_576460752303423488 [simp]: "fin 576460752303423488 = Fin 576460752303423488"
  by (rule fin_exact [where m = 1 and k = 59]) simp_all

lemma fin_576460752303423424 [simp]: "fin 576460752303423424 = Fin 576460752303423424"
  by (rule fin_exact [where m = 9007199254740991 and k = 6]) simp_all

lemma fin_288230376151711712 [simp]: "fin 288230376151711712 = Fin 288230376151711712"
  by (rule fin_exact [where m = 9007199254740991 and k = 5]) simp_all

lemma fin_288230376151711711 [simp]: "fin 288230376151711711 = Fin 288230376151711712"
  by (rule fin_round [where e = 57]) (simp_all add: roundHalfEven_def)

lemma fin_288230376151711687 [simp]: "fin 288230376151711687 = Fin 288230376151711680"
  by (rule fin_round [where e = 57]) (simp_all add: roundHalfEven_def)

lemma fin_288230376151711737 [simp]: "fin 288230376151711737 = Fin 288230376151711744"
  by (rule fin_round [where e = 57]) (simp_all add: roundHalfEven_def)

lemma fin_288230376151711680 [simp]: "fin 288230376151711680 = Fin 288230376151711680"
  by (rule fin_exact [where m = 4503599627370495 and k = 6]) simp_all

lemma fin_576460752303423360 [simp]: "fin 576460752303423360 = Fin 576460752303423360"
  by (rule fin_exact [where m = 4503599627370495 and k = 7]) simp_all

lemma fin_999999999999999975 [simp]: "fin 999999999999999975 = Fin 1000000000000000000"
  by (rule fin_round [where e = 59]) (simp_all add: roundHalfEven_def)

lemma fin_1000000000000000025 [simp]: "fin 1000000000000000025 = Fin 1000000000000000000"
  by (rule fin_round [where e = 59]) (simp_all add: roundHalfEven_def)

lemma fin_1000000000000000000 [simp]: "fin 1000000000000000000 = Fin 1000000000000000000"
  by (rule fin_exact [where m = 3814697265625 and k = 18]) simp_all

lemma fin_2000000000000000000 [simp]: "fin 2000000000000000000 = Fin 2000000000000000000"
  by (rule fin_exact [where m = 3814697265625 and k = 19]) simp_all

lemma sqrt_1024: "sqrt 1024 = 32"
  by (rule real_sqrt_unique) simp_all

lemma sqrt_4096: "sqrt 4096 = 64"
  by (rule real_sqrt_unique) simp_all

lemma transform64_rot0:
  "rotation64 t = Fin 0 \<Longrightarrow> transform64 t lx ly =
     \<lparr>x64 = fadd (tileX64 t) (fsub (fmul lx (Fin 1)) (fmul ly (Fin 0))),
      y64 = fadd (tileY64 t) (fadd (fmul lx (Fin 0)) (fmul ly (Fin 1)))\<rparr>"
  by (simp add: transform64_def mathPI_def Let_def)

lemma edges_big:
  "getShapeEdges64 (placedTile64 tid Square 288230376151711744 0) =
    [edge64 288230376151711712 (- 25) 288230376151711744 (- 25) 32 288230376151711744 (- 25) 0 (- 1),
     edge64 288230376151711744 (- 25) 288230376151711744 25 50 288230376151711744 0 1 0,
     edge64 288230376151711744 25 288230376151711712 25 32 288230376151711744 25 0 1,
     edge64 288230376151711712 25 288230376151711712 (- 25) 50 288230376151711712 0 (- 1) 0]"
  by (simp add: getShapeEdges64_def edgesOfVertices64_def shapeVertices64_def upt_4
      placedTile64_def transform64_rot0 fsub_def makeEdge64_def Let_def sqrt_2500 sqrt_1024 edge64_def)

lemma rnd_nine_tenths: "rnd (9 / 10) = 8106479329266893 / 9007199254740992"
proof -
  have a: "2 powr real_of_int (- 1) \<le> \<bar>9 / 10 :: real\<bar>"
    by (simp add: powr_minus)
  have b: "\<bar>9 / 10 :: real\<bar> < 2 powr real_of_int (- 1 + 1)"
    by simp
  have p: "(2::real) powr real_of_int (- 1 - 52) = 1 / 2 ^ 53"
    by (subst powr_real_of_int) (simp_all add: field_simps)
  have "rnd (9 / 10) = of_int (roundHalfEven ((9 / 10) / (1 / 2 ^ 53))) * (1 / 2 ^ 53)"
    using rnd_eval [OF a b] unfolding p by simp
  also have "roundHalfEven ((9 / 10) / (1 / 2 ^ 53)) = 8106479329266893"
    by (simp add: roundHalfEven_def)
  finally show ?thesis by simp
qed

lemma lit_nine_tenths: "lit (9 / 10) = Fin (8106479329266893 / 9007199254740992)"
  by (simp add: lit_def rnd_nine_tenths)

lemma snap_big:
  "canTilesSnap64 (placedTile64 tid Square 288230376151711744 0)
                  (placedTile64 tid' Square 288230376151711744 0) =
   \<lparr>canSnap64 = True, snapPosition64 = Some \<lparr>x64 = Fin 288230376151711712, y64 = Fin 0\<rparr>\<rparr>"
  unfolding canTilesSnap64_def edges_big
  by (simp add: findBestSnap64_def edge64_def snapStep64_def
      areEdgesCompatible64_def midpointDistance64_def normalDot64_def mathPow2_def fsub_def flt_def
      Let_def lit_nine_tenths sqrt_2500 sqrt_1024 placedTile64_def)

lemma edges_moved:
  "getShapeEdges64 (placedTile64 tid Square 288230376151711712 0) =
    [edge64 288230376151711680 (- 25) 288230376151711744 (- 25) 64 288230376151711712 (- 25) 0 (- 1),
     edge64 288230376151711744 (- 25) 288230376151711744 25 50 288230376151711744 0 1 0,
     edge64 288230376151711744 25 288230376151711680 25 64 288230376151711712 25 0 1,
     edge64 288230376151711680 25 288230376151711680 (- 25) 50 288230376151711680 0 (- 1) 0]"
  by (simp add: getShapeEdges64_def edgesOfVertices64_def shapeVertices64_def upt_4
      placedTile64_def transform64_rot0 fsub_def makeEdge64_def Let_def sqrt_2500 sqrt_4096 edge64_def)

lemma moved_tile:
  "(placedTile64 tid Square 288230376151711744 0)
     \<lparr>tileX64 := x64 \<lparr>x64 = Fin 288230376151711712, y64 = Fin 0\<rparr>,
      tileY64 := y64 \<lparr>x64 = Fin 288230376151711712, y64 = Fin 0\<rparr>\<rparr>
   = placedTile64 tid Square 288230376151711712 0"
  by (simp add: placedTile64_def)


lemma compatible_pair_big:
  "midpointDistance64 (getShapeEdges64 (placedTile64 tid Square 288230376151711712 0) ! 1)
                      (getShapeEdges64 (placedTile64 tid' Square 288230376151711744 0) ! 3) = Fin 32 \<and>
   areEdgesCompatible64 (getShapeEdges64 (placedTile64 tid Square 288230376151711712 0) ! 1)
                      (getShapeEdges64 (placedTile64 tid' Square 288230376151711744 0) ! 3)"
  unfolding edges_moved edges_big
  by (simp add: edge64_def
      areEdgesCompatible64_def midpointDistance64_def normalDot64_def mathPow2_def fsub_def flt_def
      Let_def lit_nine_tenths sqrt_2500 sqrt_1024 sqrt_4096)

lemma edges_1e18:
  "getShapeEdges64 (placedTile64 tid Square 1000000000000000000 0) =
    [\<lparr>start64 = \<lparr>x64 = Fin 1000000000000000000, y64 = Fin (- 25)\<rparr>,
      end64 = \<lparr>x64 = Fin 1000000000000000000, y64 = Fin (- 25)\<rparr>,
      length64 = Fin 0, midpoint64 = \<lparr>x64 = Fin 1000000000000000000, y64 = Fin (- 25)\<rparr>,
      normal64 = \<lparr>x64 = NaN, y64 = NaN\<rparr>\<rparr>,
     edge64 1000000000000000000 (- 25) 1000000000000000000 25 50 1000000000000000000 0 1 0,
     \<lparr>start64 = \<lparr>x64 = Fin 1000000000000000000, y64 = Fin 25\<rparr>,
      end64 = \<lparr>x64 = Fin 1000000000000000000, y64 = Fin 25\<rparr>,
      length64 = Fin 0, midpoint64 = \<lparr>x64 = Fin 1000000000000000000, y64 = Fin 25\<rparr>,
      normal64 = \<lparr>x64 = NaN, y64 = NaN\<rparr>\<rparr>,
     edge64 1000000000000000000 25 1000000000000000000 (- 25) 50 1000000000000000000 0 (- 1) 0]"
  by (simp add: getShapeEdges64_def edgesOfVertices64_def shapeVertices64_def upt_4
      placedTile64_def transform64_rot0 fsub_def makeEdge64_def Let_def sqrt_2500 edge64_def)


lemma snap_1e18:
  "canSnap64 (canTilesSnap64 (placedTile64 tid Square 1000000000000000000 0)
                             (placedTile64 tid' Square 1000000000000000000 0))"
proof -
  have e: "getShapeEdges64 (placedTile64 tid' Square 1000000000000000000 0)
         = getShapeEdges64 (placedTile64 tid Square 1000000000000000000 0)"
    by (simp add: getShapeEdges64_def edgesOfVertices64_def shapeVertices64_def
        placedTile64_def transform64_def makeEdge64_def)
  show ?thesis
    unfolding canTilesSnap64_def e edges_1e18
    by (simp add: findBestSnap64_def edge64_def snapStep64_def
      areEdgesCompatible64_def midpointDistance64_def normalDot64_def mathPow2_def fsub_def flt_def
      Let_def lit_nine_tenths sqrt_2500 placedTile64_def)
qed











lemma snapStep64_inv:
  "snapInv64 S1 S2 best \<Longrightarrow> e1 \<in> S1 \<Longrightarrow> e2 \<in> S2 \<Longrightarrow> snapInv64 S1 S2 (snapStep64 e1 e2 best)"
  by (auto simp: snapInv64_def snapStep64_def Let_def split: option.splits)

lemma inner_fold64_inv:
  "snapInv64 S1 S2 best \<Longrightarrow> e1 \<in> S1 \<Longrightarrow> set es2 \<subseteq> S2 \<Longrightarrow>
   snapInv64 S1 S2 (fold (\<lambda>e2 best'. snapStep64 e1 e2 best') es2 best)"
  by (induction es2 arbitrary: best) (simp_all add: snapStep64_inv)

lemma outer_fold64_inv:
  "snapInv64 S1 S2 best \<Longrightarrow> set es1 \<subseteq> S1 \<Longrightarrow> set es2 \<subseteq> S2 \<Longrightarrow>
   snapInv64 S1 S2 (fold (\<lambda>e1 best. fold (\<lambda>e2 best'. snapStep64 e1 e2 best') es2 best) es1 best)"
  by (induction es1 arbitrary: best) (simp_all add: inner_fold64_inv)

lemma findBestSnap64_Some:
  assumes "findBestSnap64 es1 es2 = Some b"
  shows "bestEdge1 b \<in> set es1 \<and> bestEdge2 b \<in> set es2 \<and>
         areEdgesCompatible64 (bestEdge1 b) (bestEdge2 b)"
proof -
  have "snapInv64 (set es1) (set es2) (findBestSnap64 es1 es2)"
    unfolding findBestSnap64_def by (rule outer_fold64_inv) (simp_all add: snapInv64_def)
  with assms show ?thesis by (simp add: snapInv64_def)
qed

lemma snapStep64_keeps: "best \<noteq> None \<Longrightarrow> snapStep64 e1 e2 best \<noteq> None"
  by (auto simp: snapStep64_def Let_def split: option.splits)

lemma snapStep64_finds: "areEdgesCompatible64 e1 e2 \<Longrightarrow> snapStep64 e1 e2 best \<noteq> None"
  by (auto simp: snapStep64_def Let_def split: option.splits)

lemma inner_fold64_keeps:
  "best \<noteq> None \<Longrightarrow> fold (\<lambda>e2 best'. snapStep64 e1 e2 best') es2 best \<noteq> None"
  by (induction es2 arbitrary: best) (simp_all del: not_None_eq add: snapStep64_keeps)

lemma inner_fold64_finds:
  "e2 \<in> set es2 \<Longrightarrow> areEdgesCompatible64 e1 e2 \<Longrightarrow>
   fold (\<lambda>e2 best'. snapStep64 e1 e2 best') es2 best \<noteq> None"
proof (induction es2 arbitrary: best)
  case Nil
  then show ?case by simp
next
  case (Cons e es)
  show ?case
  proof (cases "e = e2")
    case True
    with Cons.prems(2) have "snapStep64 e1 e best \<noteq> None" by (simp add: snapStep64_finds)
    then show ?thesis by (simp add: inner_fold64_keeps)
  next
    case False
    with Cons.prems(1) have "e2 \<in> set es" by simp
    from Cons.IH [OF this Cons.prems(2)] show ?thesis by simp
  qed
qed

lemma outer_fold64_keeps:
  "best \<noteq> None \<Longrightarrow>
   fold (\<lambda>e1 best. fold (\<lambda>e2 best'. snapStep64 e1 e2 best') es2 best) es1 best \<noteq> None"
  by (induction es1 arbitrary: best) (simp_all del: not_None_eq add: inner_fold64_keeps)

lemma outer_fold64_finds:
  "e1 \<in> set es1 \<Longrightarrow> e2 \<in> set es2 \<Longrightarrow> areEdgesCompatible64 e1 e2 \<Longrightarrow>
   fold (\<lambda>e1 best. fold (\<lambda>e2 best'. snapStep64 e1 e2 best') es2 best) es1 best \<noteq> None"
proof (induction es1 arbitrary: best)
  case Nil
  then show ?case by simp
next
  case (Cons e es)
  show ?case
  proof (cases "e = e1")
    case True
    with Cons.prems have "fold (\<lambda>e2 best'. snapStep64 e e2 best') es2 best \<noteq> None"
      by (simp add: inner_fold64_finds)
    then show ?thesis by (simp add: outer_fold64_keeps)
  next
    case False
    with Cons.prems(1) have "e1 \<in> set es" by simp
    from Cons.IH [OF this Cons.prems(2,3)] show ?thesis by simp
  qed
qed

lemma canSnap64_iff:
  "canSnap64 (canTilesSnap64 a b) =
   (\<exists>e1 \<in> set (getShapeEdges64 a). \<exists>e2 \<in> set (getShapeEdges64 b). areEdgesCompatible64 e1 e2)"
proof
  assume "canSnap64 (canTilesSnap64 a b)"
  then obtain bs where "findBestSnap64 (getShapeEdges64 a) (getShapeEdges64 b) = Some bs"
    by (auto simp: canTilesSnap64_def split: option.splits)
  from findBestSnap64_Some [OF this] show
    "\<exists>e1 \<in> set (getShapeEdges64 a). \<exists>e2 \<in> set (getShapeEdges64 b). areEdgesCompatible64 e1 e2"
    by blast
next
  assume "\<exists>e1 \<in> set (getShapeEdges64 a). \<exists>e2 \<in> set (getShapeEdges64 b). areEdgesCompatible64 e1 e2"
  then obtain e1 e2 where "e1 \<in> set (getShapeEdges64 a)" "e2 \<in> set (getShapeEdges64 b)"
    "areEdgesCompatible64 e1 e2" by blast
  then have "findBestSnap64 (getShapeEdges64 a) (getShapeEdges64 b) \<noteq> None"
    unfolding findBestSnap64_def by (rule outer_fold64_finds)
  then show "canSnap64 (canTilesSnap64 a b)"
    by (auto simp: canTilesSnap64_def Let_def split: option.splits)
qed


section \<open>Binary64: forward error analysis\<close>

subsection \<open>Approximation of a real by a double\<close>

lemma roundHalfEven_err: "\<bar>of_int (roundHalfEven q) - q\<bar> \<le> 1 / 2"
proof -
  have "of_int \<lfloor>q\<rfloor> \<le> q" "q < of_int \<lfloor>q\<rfloor> + 1" by linarith+
  then show ?thesis
    unfolding roundHalfEven_def Let_def by (auto simp: abs_le_iff)
qed

lemma rnd_err_ulp: "\<bar>rnd x - x\<bar> \<le> ulp64 x / 2"
proof (cases "x = 0")
  case True
  then show ?thesis using ulp64_pos [of x] by (simp add: rnd_def)
next
  case False
  define u where "u = ulp64 x"
  have u: "0 < u" by (simp add: u_def ulp64_pos)
  have "rnd x - x = (of_int (roundHalfEven (x / u)) - x / u) * u"
    using False u by (simp add: rnd_def u_def [symmetric] field_simps)
  then have "\<bar>rnd x - x\<bar> = \<bar>of_int (roundHalfEven (x / u)) - x / u\<bar> * u"
    using u by (simp add: abs_mult)
  also have "\<dots> \<le> (1 / 2) * u"
    using roundHalfEven_err [of "x / u"] u by (intro mult_right_mono) simp_all
  finally show ?thesis by (simp add: u_def)
qed

lemma ulp64_le:
  assumes "x \<noteq> 0"
  shows "ulp64 x \<le> max (\<bar>x\<bar> / 2 ^ 52) (1 / 2 ^ 1074)"
proof -
  have pos: "0 < \<bar>x\<bar>" using assms by simp
  have p: "2 powr of_int (binExp x) \<le> \<bar>x\<bar>"
    using pos floor_log_eq_powr_iff [of "\<bar>x\<bar>" 2 "binExp x"] by (simp add: binExp_def)
  have a: "(2::real) powr of_int (binExp x - 52) = 2 powr of_int (binExp x) / 2 ^ 52"
  proof -
    have "(2::real) powr of_int (binExp x - 52) = 2 powr (of_int (binExp x) + (- 52))"
      by simp
    also have "\<dots> = 2 powr of_int (binExp x) * 2 powr (- 52)"
      by (simp only: powr_add)
    also have "(2::real) powr (- 52) = 1 / 2 ^ 52"
      by (simp add: powr_minus inverse_eq_divide)
    finally show ?thesis by simp
  qed
  have b: "(2::real) powr of_int (- 1074) = 1 / 2 ^ 1074"
    by (subst powr_real_of_int) (simp_all add: inverse_eq_divide)
  show ?thesis
  proof (cases "binExp x - 52 \<le> - 1074")
    case True
    then have "ulp64 x = 1 / 2 ^ 1074"
      unfolding ulp64_def by (simp only: max_absorb2 b)
    then show ?thesis by simp
  next
    case False
    then have "max (binExp x - 52) (- 1074) = binExp x - 52" by simp
    then have "ulp64 x = 2 powr of_int (binExp x) / 2 ^ 52"
      unfolding ulp64_def by (simp only: a)
    also have "\<dots> \<le> \<bar>x\<bar> / 2 ^ 52"
      using p by (simp add: divide_right_mono)
    finally show ?thesis by simp
  qed
qed

lemma rnd_err:
  assumes "\<bar>x\<bar> \<le> M" and "1 \<le> M"
  shows "\<bar>rnd x - x\<bar> \<le> M / 2 ^ 53"
proof (cases "x = 0")
  case True
  then show ?thesis using assms(2) by (simp add: rnd_def)
next
  case False
  have "(1::real) / 2 ^ 1074 \<le> 1 / 2 ^ 52"
    by (intro divide_left_mono power_increasing) simp_all
  also have "\<dots> \<le> M / 2 ^ 52"
    using assms(2) by (simp add: divide_right_mono)
  finally have t: "(1::real) / 2 ^ 1074 \<le> M / 2 ^ 52" .
  have "\<bar>x\<bar> / 2 ^ 52 \<le> M / 2 ^ 52"
    using assms(1) by (simp add: divide_right_mono)
  with t ulp64_le [OF False] have "ulp64 x \<le> M / 2 ^ 52" by simp
  with rnd_err_ulp [of x] show ?thesis by simp
qed

lemma maxDouble_large: "2 ^ 101 \<le> maxDouble"
proof -
  have "(2::real) ^ 101 \<le> 1 * 2 ^ 971" by (simp add: power_increasing)
  also have "\<dots> \<le> (2 ^ 53 - 1) * 2 ^ 971" by (intro mult_right_mono) simp_all
  finally show ?thesis by (simp add: maxDouble_def)
qed

lemma fin_finite:
  assumes "\<bar>x\<bar> \<le> M" and "1 \<le> M" and "M \<le> 2 ^ 100"
  shows "fin x = Fin (rnd x)"
proof -
  have "M / 2 ^ 53 \<le> M" using assms(2) by (simp add: field_simps)
  with rnd_err [OF assms(1,2)] assms(1) have "\<bar>rnd x\<bar> \<le> 2 * M" by linarith
  also have "\<dots> \<le> 2 ^ 101" using assms(3) by simp
  finally have "\<bar>rnd x\<bar> \<le> maxDouble" using maxDouble_large by linarith
  then show ?thesis by (auto simp: fin_def Let_def)
qed

lemma approx_fin:
  assumes "\<bar>x - a\<bar> \<le> e" and "\<bar>x\<bar> \<le> M" and "1 \<le> M" and "M \<le> 2 ^ 100"
  shows "approx (fin x) a (e + M / 2 ^ 53)"
proof -
  have "\<bar>rnd x - a\<bar> \<le> \<bar>rnd x - x\<bar> + \<bar>x - a\<bar>" by linarith
  with rnd_err [OF assms(2,3)] assms(1) have "\<bar>rnd x - a\<bar> \<le> e + M / 2 ^ 53" by linarith
  then show ?thesis
    unfolding approx_def fin_finite [OF assms(2-4)] by simp
qed

lemma approx_Fin: "approx (Fin a) a 0"
  by (simp add: approx_def)

lemma approx_weaken: "approx v a e \<Longrightarrow> e \<le> e' \<Longrightarrow> approx v a e'"
  by (auto simp: approx_def)

lemma approx_nonneg: "approx v a e \<Longrightarrow> 0 \<le> e"
  by (auto simp: approx_def)

lemma approx_neg: "approx v a e \<Longrightarrow> approx (fneg v) (- a) e"
  by (auto simp: approx_def)

lemma approx_add:
  assumes "approx u a ea" and "approx v b eb"
    and "\<bar>a + b\<bar> + ea + eb \<le> M" and "1 \<le> M" and "M \<le> 2 ^ 100"
  shows "approx (fadd u v) (a + b) (ea + eb + M / 2 ^ 53)"
proof -
  from assms(1) obtain p where u: "u = Fin p" and p: "\<bar>p - a\<bar> \<le> ea" by (auto simp: approx_def)
  from assms(2) obtain q where v: "v = Fin q" and q: "\<bar>q - b\<bar> \<le> eb" by (auto simp: approx_def)
  have 1: "\<bar>(p + q) - (a + b)\<bar> \<le> ea + eb" using p q by linarith
  then have 2: "\<bar>p + q\<bar> \<le> M" using assms(3) by linarith
  show ?thesis
    unfolding u v fadd.simps using approx_fin [OF 1 2 assms(4,5)] .
qed

lemma approx_sub:
  assumes "approx u a ea" and "approx v b eb"
    and "\<bar>a - b\<bar> + ea + eb \<le> M" and "1 \<le> M" and "M \<le> 2 ^ 100"
  shows "approx (fsub u v) (a - b) (ea + eb + M / 2 ^ 53)"
  unfolding fsub_def
  using approx_add [OF assms(1) approx_neg [OF assms(2)], of M] assms(3-5) by simp

lemma approx_mul:
  assumes "approx u a ea" and "approx v b eb" and "\<bar>a\<bar> \<le> A" and "\<bar>b\<bar> \<le> B"
    and "(A + ea) * (B + eb) \<le> M" and "1 \<le> M" and "M \<le> 2 ^ 100"
  shows "approx (fmul u v) (a * b) ((A + ea) * eb + B * ea + M / 2 ^ 53)"
proof -
  from assms(1) obtain p where u: "u = Fin p" and p: "\<bar>p - a\<bar> \<le> ea" by (auto simp: approx_def)
  from assms(2) obtain q where v: "v = Fin q" and q: "\<bar>q - b\<bar> \<le> eb" by (auto simp: approx_def)
  have ea: "0 \<le> ea" and eb: "0 \<le> eb" using p q by linarith+
  have A: "0 \<le> A" and B: "0 \<le> B" using assms(3,4) by linarith+
  have pA: "\<bar>p\<bar> \<le> A + ea" using p assms(3) by linarith
  have qB: "\<bar>q\<bar> \<le> B + eb" using q assms(4) by linarith
  have "p * q - a * b = p * (q - b) + b * (p - a)" by (simp add: algebra_simps)
  then have "\<bar>p * q - a * b\<bar> \<le> \<bar>p\<bar> * \<bar>q - b\<bar> + \<bar>b\<bar> * \<bar>p - a\<bar>"
    by (metis abs_mult abs_triangle_ineq)
  also have "\<dots> \<le> (A + ea) * eb + B * ea"
    using pA q assms(4) p ea eb A B by (intro add_mono mult_mono) simp_all
  finally have 1: "\<bar>p * q - a * b\<bar> \<le> (A + ea) * eb + B * ea" .
  have "\<bar>p * q\<bar> = \<bar>p\<bar> * \<bar>q\<bar>" by (rule abs_mult)
  also have "\<dots> \<le> (A + ea) * (B + eb)"
    using pA qB A ea by (intro mult_mono) simp_all
  finally have 2: "\<bar>p * q\<bar> \<le> M" using assms(5) by linarith
  show ?thesis
    unfolding u v fmul.simps using approx_fin [OF 1 2 assms(6,7)] .
qed

subsection \<open>Division, square root and comparisons\<close>

lemma approx_div:
  assumes "approx u a ea" and "approx v b eb" and "\<bar>a\<bar> \<le> A" and "b0 \<le> b" and "0 < b0 - eb"
    and "(A + ea) / (b0 - eb) \<le> M" and "1 \<le> M" and "M \<le> 2 ^ 100"
  shows "approx (fdiv u v) (a / b) (ea / (b0 - eb) + A * eb / ((b0 - eb) * b0) + M / 2 ^ 53)"
proof -
  from assms(1) obtain p where u: "u = Fin p" and p: "\<bar>p - a\<bar> \<le> ea" by (auto simp: approx_def)
  from assms(2) obtain q where v: "v = Fin q" and q: "\<bar>q - b\<bar> \<le> eb" by (auto simp: approx_def)
  have ea: "0 \<le> ea" and eb: "0 \<le> eb" using p q by linarith+
  have A: "0 \<le> A" using assms(3) by linarith
  define q0 where "q0 = b0 - eb"
  have q0: "0 < q0" unfolding q0_def by (rule assms(5))
  have qq: "q0 \<le> q" unfolding q0_def using q assms(4) by linarith
  have qpos: "0 < q" using q0 qq by linarith
  have b0: "0 < b0" using assms(5) eb by linarith
  have bpos: "0 < b" using b0 assms(4) by linarith
  have "p / q - a / b = (p - a) / q + a * (b - q) / (q * b)"
    using qpos bpos by (simp add: field_simps)
  then have "\<bar>p / q - a / b\<bar> \<le> \<bar>(p - a) / q\<bar> + \<bar>a * (b - q) / (q * b)\<bar>"
    by (metis abs_triangle_ineq)
  also have "\<bar>(p - a) / q\<bar> = \<bar>p - a\<bar> / q" using qpos by (simp add: abs_divide)
  also have "\<bar>a * (b - q) / (q * b)\<bar> = \<bar>a\<bar> * \<bar>b - q\<bar> / (q * b)"
    using qpos bpos by (simp add: abs_divide abs_mult)
  also have "\<bar>p - a\<bar> / q + \<bar>a\<bar> * \<bar>b - q\<bar> / (q * b) \<le> ea / q0 + A * eb / (q0 * b0)"
  proof (intro add_mono frac_le mult_mono)
    show "\<bar>b - q\<bar> \<le> eb" using q by linarith
  qed (use p q ea eb A q0 qq qpos b0 bpos assms(3,4) in auto)
  finally have 1: "\<bar>p / q - a / b\<bar> \<le> ea / q0 + A * eb / (q0 * b0)" .
  have "\<bar>p / q\<bar> = \<bar>p\<bar> / q" using qpos by (simp add: abs_divide)
  also have "\<dots> \<le> (A + ea) / q0"
  proof (intro frac_le)
    show "\<bar>p\<bar> \<le> A + ea" using p assms(3) by linarith
  qed (use q0 qq A ea in auto)
  finally have 2: "\<bar>p / q\<bar> \<le> M" using assms(6) by (simp add: q0_def)
  have nz: "q \<noteq> 0" using qpos by simp
  show ?thesis
    unfolding u v using approx_fin [OF 1 2 assms(7,8)] nz by (simp add: q0_def)
qed

lemma approx_sqrt:
  assumes "approx u a ea" and "0 < s0" and "s0 * s0 \<le> a - ea" and "a + ea \<le> M * M"
    and "1 \<le> M" and "M \<le> 2 ^ 100"
  shows "approx (fsqrt u) (sqrt a) (ea / (2 * s0) + M / 2 ^ 53)"
proof -
  from assms(1) obtain p where u: "u = Fin p" and p: "\<bar>p - a\<bar> \<le> ea" by (auto simp: approx_def)
  have ea: "0 \<le> ea" using p by linarith
  have pl: "s0 * s0 \<le> p" using p assms(3) by linarith
  have al: "s0 * s0 \<le> a" using ea assms(3) by linarith
  have ppos: "0 < p" using pl assms(2) by (smt (verit) mult_pos_pos)
  have apos: "0 < a" using al assms(2) by (smt (verit) mult_pos_pos)
  have sp: "s0 \<le> sqrt p"
    using pl assms(2) by (metis abs_of_pos real_sqrt_abs2 real_sqrt_le_iff)
  have sa: "s0 \<le> sqrt a"
    using al assms(2) by (metis abs_of_pos real_sqrt_abs2 real_sqrt_le_iff)
  have den: "0 < sqrt p + sqrt a" using sp sa assms(2) by linarith
  have "(sqrt p - sqrt a) * (sqrt p + sqrt a) = p - a"
    using ppos apos by (simp add: algebra_simps)
  then have "sqrt p - sqrt a = (p - a) / (sqrt p + sqrt a)"
    using den by (simp add: field_simps)
  then have "\<bar>sqrt p - sqrt a\<bar> = \<bar>p - a\<bar> / (sqrt p + sqrt a)"
    using den by (simp add: abs_divide)
  also have "\<dots> \<le> ea / (2 * s0)"
  proof (intro frac_le)
    show "2 * s0 \<le> sqrt p + sqrt a" using sp sa by linarith
  qed (use p ea assms(2) in auto)
  finally have 1: "\<bar>sqrt p - sqrt a\<bar> \<le> ea / (2 * s0)" .
  have "p \<le> M * M" using p assms(4) by linarith
  then have "sqrt p \<le> sqrt (M * M)" by (simp only: real_sqrt_le_iff)
  also have "sqrt (M * M) = M" using assms(5) by simp
  finally have 2: "\<bar>sqrt p\<bar> \<le> M" using ppos by simp
  have "\<not> p < 0" using ppos by simp
  then show ?thesis
    unfolding u using approx_fin [OF 1 2 assms(5,6)] by simp
qed

lemma approx_fgt:
  assumes "approx v a e" and "k < a - e"
  shows "fgt v (Fin k)"
  using assms by (auto simp: approx_def)

lemma approx_not_fgt:
  assumes "approx v a e" and "a + e \<le> k"
  shows "\<not> fgt v (Fin k)"
  using assms by (auto simp: approx_def)

subsection \<open>Rotation and translation of a vertex\<close>

lemma rnd_pi_bound: "\<bar>rnd pi\<bar> \<le> 5"
proof -
  have p: "\<bar>pi\<bar> \<le> 4" using pi_less_4 pi_gt_zero by simp
  have "\<bar>rnd pi - pi\<bar> \<le> 4 / 2 ^ 53" by (rule rnd_err [OF p]) simp
  moreover have "(4::real) / 2 ^ 53 \<le> 1" by simp
  ultimately show ?thesis using p by linarith
qed

lemma tile_cos_sin:
  assumes "rotation64 t = Fin r" and "\<bar>r\<bar> \<le> 2 ^ 30"
  shows "mathCos (fdiv (fmul (rotation64 t) mathPI) (Fin 180)) = Fin (rnd (cos (tileAngle r)))"
    and "mathSin (fdiv (fmul (rotation64 t) mathPI) (Fin 180)) = Fin (rnd (sin (tileAngle r)))"
proof -
  have "\<bar>r * rnd pi\<bar> \<le> 2 ^ 30 * 5"
    unfolding abs_mult using assms(2) rnd_pi_bound by (intro mult_mono) simp_all
  then have b1: "\<bar>r * rnd pi\<bar> \<le> 2 ^ 33" by simp
  have f1: "fin (r * rnd pi) = Fin (rnd (r * rnd pi))"
    by (rule fin_finite [OF b1]) simp_all
  have e1: "\<bar>rnd (r * rnd pi) - r * rnd pi\<bar> \<le> 2 ^ 33 / 2 ^ 53"
    by (rule rnd_err [OF b1]) simp
  have "(2::real) ^ 33 / 2 ^ 53 \<le> 1" by simp
  with e1 b1 have b2: "\<bar>rnd (r * rnd pi)\<bar> \<le> 2 ^ 33 + 1" by linarith
  have "\<bar>rnd (r * rnd pi) / 180\<bar> = \<bar>rnd (r * rnd pi)\<bar> / 180" by simp
  also have "\<dots> \<le> \<bar>rnd (r * rnd pi)\<bar>" by simp
  also have "\<dots> \<le> 2 ^ 34" using b2 by simp
  finally have "\<bar>rnd (r * rnd pi) / 180\<bar> \<le> 2 ^ 34" .
  then have f2: "fin (rnd (r * rnd pi) / 180) = Fin (tileAngle r)"
    unfolding tileAngle_def by (rule fin_finite) simp_all
  have a: "fdiv (fmul (rotation64 t) mathPI) (Fin 180) = Fin (tileAngle r)"
    by (simp add: assms(1) mathPI_def f1 f2)
  have c: "fin (cos (tileAngle r)) = Fin (rnd (cos (tileAngle r)))"
    by (rule fin_finite [of _ 1]) simp_all
  have s: "fin (sin (tileAngle r)) = Fin (rnd (sin (tileAngle r)))"
    by (rule fin_finite [of _ 1]) simp_all
  show "mathCos (fdiv (fmul (rotation64 t) mathPI) (Fin 180)) = Fin (rnd (cos (tileAngle r)))"
    by (simp add: a c)
  show "mathSin (fdiv (fmul (rotation64 t) mathPI) (Fin 180)) = Fin (rnd (sin (tileAngle r)))"
    by (simp add: a s)
qed

lemma approx_rnd_unit:
  assumes "\<bar>z\<bar> \<le> 1"
  shows "approx (Fin (rnd z)) z (1 / 2 ^ 53)"
  using rnd_err [OF assms] by (simp add: approx_def)

lemma rot_bound:
  fixes a b C S :: real
  assumes C: "\<bar>C\<bar> \<le> 1" and S: "\<bar>S\<bar> \<le> 1" and "\<bar>a\<bar> \<le> 50" and "\<bar>b\<bar> \<le> 50"
  shows "\<bar>a * C - b * S\<bar> \<le> 100" and "\<bar>a * S + b * C\<bar> \<le> 100"
proof -
  have 1: "\<bar>a * C\<bar> \<le> 50 * 1" unfolding abs_mult using assms(3) C by (intro mult_mono) simp_all
  have 2: "\<bar>b * S\<bar> \<le> 50 * 1" unfolding abs_mult using assms(4) S by (intro mult_mono) simp_all
  have 3: "\<bar>a * S\<bar> \<le> 50 * 1" unfolding abs_mult using assms(3) S by (intro mult_mono) simp_all
  have 4: "\<bar>b * C\<bar> \<le> 50 * 1" unfolding abs_mult using assms(4) C by (intro mult_mono) simp_all
  show "\<bar>a * C - b * S\<bar> \<le> 100" using 1 2 by linarith
  show "\<bar>a * S + b * C\<bar> \<le> 100" using 3 4 by linarith
qed

lemma transform64_approx:
  assumes tx: "tileX64 t = Fin x" and ty: "tileY64 t = Fin y" and tr: "rotation64 t = Fin r"
    and x: "\<bar>x\<bar> \<le> 2 ^ 30" and y: "\<bar>y\<bar> \<le> 2 ^ 30" and r: "\<bar>r\<bar> \<le> 2 ^ 30"
    and lx: "approx lx a (1 / 2 ^ 47)" and ly: "approx ly b (1 / 2 ^ 47)"
    and a: "\<bar>a\<bar> \<le> 50" and b: "\<bar>b\<bar> \<le> 50"
  shows "approx (x64 (transform64 t lx ly))
           (x + (a * cos (tileAngle r) - b * sin (tileAngle r))) (1 / 2 ^ 21)"
    and "approx (y64 (transform64 t lx ly))
           (y + (a * sin (tileAngle r) + b * cos (tileAngle r))) (1 / 2 ^ 21)"
proof -
  define C where "C = cos (tileAngle r)"
  define S where "S = sin (tileAngle r)"
  have cs: "C\<^sup>2 + S\<^sup>2 = 1" by (simp add: C_def S_def)
  have C1: "\<bar>C\<bar> \<le> 1" and S1: "\<bar>S\<bar> \<le> 1" by (simp_all add: C_def S_def)
  define c where "c = Fin (rnd C)"
  define s where "s = Fin (rnd S)"
  have c: "approx c C (1 / 2 ^ 53)" unfolding c_def by (rule approx_rnd_unit [OF C1])
  have s: "approx s S (1 / 2 ^ 53)" unfolding s_def by (rule approx_rnd_unit [OF S1])
  have tf: "transform64 t lx ly =
      \<lparr>x64 = fadd (Fin x) (fsub (fmul lx c) (fmul ly s)),
       y64 = fadd (Fin y) (fadd (fmul lx s) (fmul ly c))\<rparr>"
    by (simp add: transform64_def Let_def tile_cos_sin [OF tr r] tx ty c_def s_def C_def S_def)
  have ac: "approx (fmul lx c) (a * C) (1 / 2 ^ 45)"
    by (rule approx_weaken [OF approx_mul [OF lx c a C1, of 64]]) simp_all
  have bs: "approx (fmul ly s) (b * S) (1 / 2 ^ 45)"
    by (rule approx_weaken [OF approx_mul [OF ly s b S1, of 64]]) simp_all
  have as: "approx (fmul lx s) (a * S) (1 / 2 ^ 45)"
    by (rule approx_weaken [OF approx_mul [OF lx s a S1, of 64]]) simp_all
  have bc: "approx (fmul ly c) (b * C) (1 / 2 ^ 45)"
    by (rule approx_weaken [OF approx_mul [OF ly c b C1, of 64]]) simp_all
  note rb = rot_bound [OF C1 S1 a b]
  have u: "approx (fsub (fmul lx c) (fmul ly s)) (a * C - b * S) (1 / 2 ^ 43)"
    by (rule approx_weaken [OF approx_sub [OF ac bs, of 128]]) (use rb in simp_all)
  have v: "approx (fadd (fmul lx s) (fmul ly c)) (a * S + b * C) (1 / 2 ^ 43)"
    by (rule approx_weaken [OF approx_add [OF as bc, of 128]]) (use rb in simp_all)
  have "approx (fadd (Fin x) (fsub (fmul lx c) (fmul ly s))) (x + (a * C - b * S)) (1 / 2 ^ 21)"
    by (rule approx_weaken [OF approx_add [OF approx_Fin [of x] u, of "2 ^ 31"]]) (use rb x in simp_all)
  moreover
  have "approx (fadd (Fin y) (fadd (fmul lx s) (fmul ly c))) (y + (a * S + b * C)) (1 / 2 ^ 21)"
    by (rule approx_weaken [OF approx_add [OF approx_Fin [of y] v, of "2 ^ 31"]]) (use rb y in simp_all)
  ultimately show "approx (x64 (transform64 t lx ly))
           (x + (a * cos (tileAngle r) - b * sin (tileAngle r))) (1 / 2 ^ 21)"
    and "approx (y64 (transform64 t lx ly))
           (y + (a * sin (tileAngle r) + b * cos (tileAngle r))) (1 / 2 ^ 21)"
    by (simp_all add: tf C_def S_def)
qed

subsection \<open>One edge of a tile\<close>

lemma sq_bound:
  fixes u v :: real
  assumes "u * u + v * v \<le> 2704"
  shows "\<bar>u\<bar> \<le> 52" and "\<bar>v\<bar> \<le> 52"
proof -
  have "u * u \<le> 52 * 52" using assms zero_le_square [of v] by linarith
  then show "\<bar>u\<bar> \<le> 52" by (metis abs_le_square_iff abs_numeral power2_eq_square)
  have "v * v \<le> 52 * 52" using assms zero_le_square [of u] by linarith
  then show "\<bar>v\<bar> \<le> 52" by (metis abs_le_square_iff abs_numeral power2_eq_square)
qed

lemma len_bound:
  fixes a :: real
  assumes "1700 \<le> a" and "a \<le> 2704"
  shows "41 \<le> sqrt a" and "sqrt a \<le> 52"
proof -
  have "sqrt (41 * 41) \<le> sqrt a" using assms(1) by (simp only: real_sqrt_le_iff)
  then show "41 \<le> sqrt a" by simp
  have "sqrt a \<le> sqrt (52 * 52)" using assms(2) by (simp only: real_sqrt_le_iff)
  then show "sqrt a \<le> 52" by simp
qed

lemma makeEdge64_approx:
  fixes X1 Y1 X2 Y2 x y :: real
  defines "DX \<equiv> X2 - X1" and "DY \<equiv> Y2 - Y1"
  defines "L \<equiv> sqrt (DX * DX + DY * DY)"
  defines "MX \<equiv> (X1 + X2) / 2" and "MY \<equiv> (Y1 + Y2) / 2"
  assumes tx: "tileX64 t = Fin x" and ty: "tileY64 t = Fin y"
    and px: "approx (x64 p) X1 (1 / 2 ^ 21)" and py: "approx (y64 p) Y1 (1 / 2 ^ 21)"
    and qx: "approx (x64 q) X2 (1 / 2 ^ 21)" and qy: "approx (y64 q) Y2 (1 / 2 ^ 21)"
    and bX1: "\<bar>X1\<bar> \<le> 2 ^ 31" and bX2: "\<bar>X2\<bar> \<le> 2 ^ 31"
    and bY1: "\<bar>Y1\<bar> \<le> 2 ^ 31" and bY2: "\<bar>Y2\<bar> \<le> 2 ^ 31"
    and lo: "1700 \<le> DX * DX + DY * DY" and hi: "DX * DX + DY * DY \<le> 2704"
    and cx: "\<bar>x - MX\<bar> \<le> 100" and cy: "\<bar>y - MY\<bar> \<le> 100"
    and out: "DY * (x - MX) - DX * (y - MY) \<le> - 700"
  shows "approx (length64 (makeEdge64 t p q)) L (1 / 2 ^ 16)"
    and "approx (x64 (midpoint64 (makeEdge64 t p q))) MX (1 / 2 ^ 19)"
    and "approx (y64 (midpoint64 (makeEdge64 t p q))) MY (1 / 2 ^ 19)"
    and "approx (x64 (normal64 (makeEdge64 t p q))) (DY / L) (1 / 2 ^ 20)"
    and "approx (y64 (normal64 (makeEdge64 t p q))) (- DX / L) (1 / 2 ^ 20)"
    and "approx (fsub (x64 q) (x64 p)) DX (1 / 2 ^ 19)"
    and "approx (fsub (y64 q) (y64 p)) DY (1 / 2 ^ 19)"
proof -
  note db = sq_bound [OF hi]
  have Lb: "41 \<le> L" "L \<le> 52" unfolding L_def by (rule len_bound [OF lo hi])+
  define dx where "dx = fsub (x64 q) (x64 p)"
  define dy where "dy = fsub (y64 q) (y64 p)"
  define len where "len = fsqrt (fadd (fmul dx dx) (fmul dy dy))"
  define mx where "mx = fdiv (fadd (x64 p) (x64 q)) (Fin 2)"
  define my where "my = fdiv (fadd (y64 p) (y64 q)) (Fin 2)"
  define nx where "nx = fdiv dy len"
  define ny where "ny = fdiv (fneg dx) len"
  define d where "d = fadd (fmul nx (fsub (Fin x) mx)) (fmul ny (fsub (Fin y) my))"
  have dx: "approx dx DX (1 / 2 ^ 19)"
    unfolding dx_def DX_def
    by (rule approx_weaken [OF approx_sub [OF qx px, of 128]]) (use db in \<open>simp_all add: DX_def\<close>)
  have dy: "approx dy DY (1 / 2 ^ 19)"
    unfolding dy_def DY_def
    by (rule approx_weaken [OF approx_sub [OF qy py, of 128]]) (use db in \<open>simp_all add: DY_def\<close>)
  have sx: "approx (fmul dx dx) (DX * DX) (1 / 2 ^ 12)"
    by (rule approx_weaken [OF approx_mul [OF dx dx db(1) db(1), of 4096]]) simp_all
  have sy: "approx (fmul dy dy) (DY * DY) (1 / 2 ^ 12)"
    by (rule approx_weaken [OF approx_mul [OF dy dy db(2) db(2), of 4096]]) simp_all
  have sm: "approx (fadd (fmul dx dx) (fmul dy dy)) (DX * DX + DY * DY) (1 / 2 ^ 10)"
    by (rule approx_weaken [OF approx_add [OF sx sy, of 8192]]) (use lo hi in simp_all)
  have len: "approx len L (1 / 2 ^ 16)"
    unfolding len_def L_def
    by (rule approx_weaken [OF approx_sqrt [OF sm, of 41 64]]) (use lo hi in simp_all)
  have sxx: "approx (fadd (x64 p) (x64 q)) (X1 + X2) (1 / 2 ^ 19)"
    by (rule approx_weaken [OF approx_add [OF px qx, of "2 ^ 33"]]) (use bX1 bX2 in simp_all)
  have syy: "approx (fadd (y64 p) (y64 q)) (Y1 + Y2) (1 / 2 ^ 19)"
    by (rule approx_weaken [OF approx_add [OF py qy, of "2 ^ 33"]]) (use bY1 bY2 in simp_all)
  have bsx: "\<bar>X1 + X2\<bar> \<le> 2 ^ 32" using bX1 bX2 by simp
  have bsy: "\<bar>Y1 + Y2\<bar> \<le> 2 ^ 32" using bY1 bY2 by simp
  have mx: "approx mx MX (1 / 2 ^ 19)"
    unfolding mx_def MX_def
    by (rule approx_weaken [OF approx_div [OF sxx approx_Fin [of 2] bsx, of 2 "2 ^ 32"]]) simp_all
  have my: "approx my MY (1 / 2 ^ 19)"
    unfolding my_def MY_def
    by (rule approx_weaken [OF approx_div [OF syy approx_Fin [of 2] bsy, of 2 "2 ^ 32"]]) simp_all
  have nx: "approx nx (DY / L) (1 / 2 ^ 20)"
    unfolding nx_def
    by (rule approx_weaken [OF approx_div [OF dy len db(2) Lb(1), of 2]]) simp_all
  have ndx: "\<bar>- DX\<bar> \<le> 52" using db(1) by simp
  have ny: "approx ny (- DX / L) (1 / 2 ^ 20)"
    unfolding ny_def
    by (rule approx_weaken [OF approx_div [OF approx_neg [OF dx] len ndx Lb(1), of 2]]) simp_all
  have ex: "approx (fsub (Fin x) mx) (x - MX) (1 / 2 ^ 18)"
    by (rule approx_weaken [OF approx_sub [OF approx_Fin [of x] mx, of 128]]) (use cx in simp_all)
  have ey: "approx (fsub (Fin y) my) (y - MY) (1 / 2 ^ 18)"
    by (rule approx_weaken [OF approx_sub [OF approx_Fin [of y] my, of 128]]) (use cy in simp_all)
  have Lpos: "0 < L" using Lb(1) by linarith
  have nxb: "\<bar>DY / L\<bar> \<le> 2"
  proof -
    have "\<bar>DY / L\<bar> = \<bar>DY\<bar> / L" using Lpos by (simp add: abs_divide)
    also have "\<dots> \<le> 52 / 41" using db(2) Lb(1) by (intro frac_le) simp_all
    also have "(52::real) / 41 \<le> 2" by simp
    finally show ?thesis .
  qed
  have nyb: "\<bar>- DX / L\<bar> \<le> 2"
  proof -
    have "\<bar>- DX / L\<bar> = \<bar>DX\<bar> / L" using Lpos by (simp add: abs_divide)
    also have "\<dots> \<le> 52 / 41" using db(1) Lb(1) by (intro frac_le) simp_all
    also have "(52::real) / 41 \<le> 2" by simp
    finally show ?thesis .
  qed
  have p1: "approx (fmul nx (fsub (Fin x) mx)) (DY / L * (x - MX)) (1 / 2 ^ 13)"
    by (rule approx_weaken [OF approx_mul [OF nx ex nxb cx, of 256]]) simp_all
  have p2: "approx (fmul ny (fsub (Fin y) my)) (- DX / L * (y - MY)) (1 / 2 ^ 13)"
    by (rule approx_weaken [OF approx_mul [OF ny ey nyb cy, of 256]]) simp_all
  have ref: "DY / L * (x - MX) + - DX / L * (y - MY) = (DY * (x - MX) - DX * (y - MY)) / L"
    by (simp add: diff_divide_distrib)
  have refle: "(DY * (x - MX) - DX * (y - MY)) / L \<le> - 13"
  proof -
    have "(DY * (x - MX) - DX * (y - MY)) / L \<le> (- 700) / L"
      using out Lpos by (intro divide_right_mono) simp_all
    also have "(- 700) / L \<le> (- 700) / 52"
    proof -
      have "700 / 52 \<le> 700 / L" using Lb(2) Lpos by (intro divide_left_mono) simp_all
      then show ?thesis by simp
    qed
    finally show ?thesis by simp
  qed
  have refge: "- 400 \<le> (DY * (x - MX) - DX * (y - MY)) / L"
  proof -
    have a: "\<bar>DY / L * (x - MX)\<bar> \<le> 2 * 100"
      unfolding abs_mult using nxb cx by (intro mult_mono) simp_all
    have b: "\<bar>- DX / L * (y - MY)\<bar> \<le> 2 * 100"
      unfolding abs_mult using nyb cy by (intro mult_mono) simp_all
    from a b ref show ?thesis by linarith
  qed
  have dd: "approx d ((DY * (x - MX) - DX * (y - MY)) / L) (1 / 2 ^ 11)"
    unfolding d_def ref [symmetric]
    by (rule approx_weaken [OF approx_add [OF p1 p2, of 512]]) (use refle refge ref in simp_all)
  have nf: "\<not> fgt d (Fin 0)"
    by (rule approx_not_fgt [OF dd]) (use refle in simp)
  have E: "makeEdge64 t p q =
      \<lparr>start64 = p, end64 = q, length64 = len, midpoint64 = \<lparr>x64 = mx, y64 = my\<rparr>,
       normal64 = \<lparr>x64 = nx, y64 = ny\<rparr>\<rparr>"
    using nf
    by (simp add: makeEdge64_def Let_def tx ty dx_def dy_def len_def mx_def my_def nx_def ny_def d_def)
  show "approx (length64 (makeEdge64 t p q)) L (1 / 2 ^ 16)" unfolding E Edge64.select_convs Point64.select_convs by (rule len)
  show "approx (x64 (midpoint64 (makeEdge64 t p q))) MX (1 / 2 ^ 19)" unfolding E Edge64.select_convs Point64.select_convs by (rule mx)
  show "approx (y64 (midpoint64 (makeEdge64 t p q))) MY (1 / 2 ^ 19)" unfolding E Edge64.select_convs Point64.select_convs by (rule my)
  show "approx (x64 (normal64 (makeEdge64 t p q))) (DY / L) (1 / 2 ^ 20)" unfolding E Edge64.select_convs Point64.select_convs by (rule nx)
  show "approx (y64 (normal64 (makeEdge64 t p q))) (- DX / L) (1 / 2 ^ 20)" unfolding E Edge64.select_convs Point64.select_convs by (rule ny)
  show "approx (fsub (x64 q) (x64 p)) DX (1 / 2 ^ 19)" using dx unfolding dx_def .
  show "approx (fsub (y64 q) (y64 p)) DY (1 / 2 ^ 19)" using dy unfolding dy_def .
qed

subsection \<open>Gates that fail with a margin\<close>

lemma far_midpoints64:
  assumes mx: "approx (x64 (midpoint64 e)) MX (1 / 2 ^ 19)"
    and my: "approx (y64 (midpoint64 e)) MY (1 / 2 ^ 19)"
    and mx': "approx (x64 (midpoint64 e')) MX' (1 / 2 ^ 19)"
    and my': "approx (y64 (midpoint64 e')) MY' (1 / 2 ^ 19)"
    and bdx: "\<bar>MX - MX'\<bar> \<le> 200" and bdy: "\<bar>MY - MY'\<bar> \<le> 200"
    and far: "1700 \<le> (MX - MX') * (MX - MX') + (MY - MY') * (MY - MY')"
  shows "fgt (midpointDistance64 e e') (Fin 40)"
proof -
  define ddx where "ddx = fsub (x64 (midpoint64 e)) (x64 (midpoint64 e'))"
  define ddy where "ddy = fsub (y64 (midpoint64 e)) (y64 (midpoint64 e'))"
  define Q where "Q = (MX - MX') * (MX - MX') + (MY - MY') * (MY - MY')"
  have dx: "approx ddx (MX - MX') (1 / 2 ^ 17)"
    unfolding ddx_def
    by (rule approx_weaken [OF approx_sub [OF mx mx', of 256]]) (use bdx in simp_all)
  have dy: "approx ddy (MY - MY') (1 / 2 ^ 17)"
    unfolding ddy_def
    by (rule approx_weaken [OF approx_sub [OF my my', of 256]]) (use bdy in simp_all)
  have sx: "approx (fmul ddx ddx) ((MX - MX') * (MX - MX')) (1 / 2 ^ 8)"
    by (rule approx_weaken [OF approx_mul [OF dx dx bdx bdx, of "2 ^ 16"]]) simp_all
  have sy: "approx (fmul ddy ddy) ((MY - MY') * (MY - MY')) (1 / 2 ^ 8)"
    by (rule approx_weaken [OF approx_mul [OF dy dy bdy bdy, of "2 ^ 16"]]) simp_all
  have "\<bar>MX - MX'\<bar> * \<bar>MX - MX'\<bar> \<le> 200 * 200"
    using bdx by (intro mult_mono) simp_all
  then have qx: "(MX - MX') * (MX - MX') \<le> 200 * 200"
    by (simp only: abs_mult_self_eq)
  have "\<bar>MY - MY'\<bar> * \<bar>MY - MY'\<bar> \<le> 200 * 200"
    using bdy by (intro mult_mono) simp_all
  then have qy: "(MY - MY') * (MY - MY') \<le> 200 * 200"
    by (simp only: abs_mult_self_eq)
  have Qhi: "Q \<le> 80000" unfolding Q_def using qx qy by simp
  have Qlo: "1700 \<le> Q" unfolding Q_def by (rule far)
  have sm: "approx (fadd (fmul ddx ddx) (fmul ddy ddy)) Q (1 / 2 ^ 6)"
    unfolding Q_def
    by (rule approx_weaken [OF approx_add [OF sx sy, of "2 ^ 17"]])
       (use Qhi Qlo in \<open>simp_all add: Q_def\<close>)
  have d: "approx (midpointDistance64 e e') (sqrt Q) (1 / 2 ^ 10)"
    unfolding midpointDistance64_def mathPow2_def ddx_def [symmetric] ddy_def [symmetric]
    by (rule approx_weaken [OF approx_sqrt [OF sm, of 41 512]]) (use Qhi Qlo in simp_all)
  have "41 \<le> sqrt Q"
  proof -
    have "(41::real) * 41 \<le> Q" using Qlo by simp
    then have "sqrt (41 * 41) \<le> sqrt Q" by (simp only: real_sqrt_le_iff)
    then show ?thesis by simp
  qed
  then show ?thesis
    by (intro approx_fgt [OF d]) simp
qed

lemma open_normals64:
  assumes nx: "approx (x64 (normal64 e)) NX (1 / 2 ^ 20)"
    and ny: "approx (y64 (normal64 e)) NY (1 / 2 ^ 20)"
    and nx': "approx (x64 (normal64 e')) NX' (1 / 2 ^ 20)"
    and ny': "approx (y64 (normal64 e')) NY' (1 / 2 ^ 20)"
    and b: "\<bar>NX\<bar> \<le> 2" "\<bar>NY\<bar> \<le> 2" "\<bar>NX'\<bar> \<le> 2" "\<bar>NY'\<bar> \<le> 2"
    and dot: "- (6 / 10) \<le> NX * NX' + NY * NY'"
  shows "fgt (normalDot64 e e') (fneg (lit (9 / 10)))"
proof -
  have p1: "approx (fmul (x64 (normal64 e)) (x64 (normal64 e'))) (NX * NX') (1 / 2 ^ 17)"
    by (rule approx_weaken [OF approx_mul [OF nx nx' b(1) b(3), of 8]]) simp_all
  have p2: "approx (fmul (y64 (normal64 e)) (y64 (normal64 e'))) (NY * NY') (1 / 2 ^ 17)"
    by (rule approx_weaken [OF approx_mul [OF ny ny' b(2) b(4), of 8]]) simp_all
  have u1: "\<bar>NX * NX'\<bar> \<le> 2 * 2" unfolding abs_mult using b by (intro mult_mono) simp_all
  have u2: "\<bar>NY * NY'\<bar> \<le> 2 * 2" unfolding abs_mult using b by (intro mult_mono) simp_all
  have s: "approx (normalDot64 e e') (NX * NX' + NY * NY') (1 / 2 ^ 15)"
    unfolding normalDot64_def
    by (rule approx_weaken [OF approx_add [OF p1 p2, of 16]]) (use u1 u2 in simp_all)
  show ?thesis
    unfolding lit_nine_tenths fneg.simps
    by (rule approx_fgt [OF s]) (use dot in simp)
qed

lemma far_incompatible64:
  "fgt (midpointDistance64 e e') (Fin 40) \<Longrightarrow> \<not> areEdgesCompatible64 e e'"
  by (simp add: areEdgesCompatible64_def Let_def)

lemma open_incompatible64:
  "fgt (normalDot64 e e') (fneg (lit (9 / 10))) \<Longrightarrow> \<not> areEdgesCompatible64 e e'"
  by (simp add: areEdgesCompatible64_def Let_def)

subsection \<open>The catalogue in binary64\<close>

lemma getShapeEdges64_local:
  "getShapeEdges64 t =
     map (\<lambda>(ax, ay, bx, by). makeEdge64 t (transform64 t ax ay) (transform64 t bx by))
         (localSegments64 (shape64 t))"
  by (cases "shape64 t")
     (simp_all add: getShapeEdges64_def edgesOfVertices64_def shapeVertices64_def
        localSegments64_def upt_3 upt_4 upt_6)

lemma approx_lit_433: "approx (lit (433 / 10)) (433 / 10) (1 / 2 ^ 47)"
proof -
  have "\<bar>rnd (433 / 10) - 433 / 10\<bar> \<le> 64 / 2 ^ 53"
    by (rule rnd_err) simp_all
  then show ?thesis by (simp add: approx_def lit_def)
qed

lemma approx_Fin_any: "0 \<le> e \<Longrightarrow> approx (Fin a) a e"
  by (simp add: approx_def)

lemma approx_lit_433_any: "1 / 2 ^ 47 \<le> e \<Longrightarrow> approx (lit (433 / 10)) (433 / 10) e"
  by (rule approx_weaken [OF approx_lit_433])

lemma approx_neg_lit_433_any:
  "1 / 2 ^ 47 \<le> e \<Longrightarrow> approx (fneg (lit (433 / 10))) (- (433 / 10)) e"
  by (rule approx_weaken [OF approx_neg [OF approx_lit_433]])

lemma localSegments64_approx: "list_all2 approxSeg (localSegments64 k) (localSegments k)"
  by (cases k)
     (simp_all add: localSegments64_def localSegments_def approxSeg_def approx_Fin_any
        approx_lit_433_any approx_neg_lit_433_any)

lemma localSegments_ok: "list_all segOk (localSegments k)"
  by (cases k) (simp_all add: localSegments_def segOk_def)

lemma localSegments_apart: "list_all (\<lambda>s. list_all (segsApart s) (localSegments k)) (localSegments k)"
  by (cases k) (simp_all add: localSegments_def segsApart_def Let_def)

subsection \<open>Edges of a tile from catalogue segments\<close>

lemma rot_bound_gen:
  fixes a b C S k :: real
  assumes C: "\<bar>C\<bar> \<le> 1" and S: "\<bar>S\<bar> \<le> 1" and "\<bar>a\<bar> \<le> k" and "\<bar>b\<bar> \<le> k"
  shows "\<bar>a * C - b * S\<bar> \<le> 2 * k" and "\<bar>a * S + b * C\<bar> \<le> 2 * k"
proof -
  have k: "0 \<le> k" using assms(3) by linarith
  have 1: "\<bar>a * C\<bar> \<le> k * 1" unfolding abs_mult using assms(3) C k by (intro mult_mono) simp_all
  have 2: "\<bar>b * S\<bar> \<le> k * 1" unfolding abs_mult using assms(4) S k by (intro mult_mono) simp_all
  have 3: "\<bar>a * S\<bar> \<le> k * 1" unfolding abs_mult using assms(3) S k by (intro mult_mono) simp_all
  have 4: "\<bar>b * C\<bar> \<le> k * 1" unfolding abs_mult using assms(4) C k by (intro mult_mono) simp_all
  show "\<bar>a * C - b * S\<bar> \<le> 2 * k" using 1 2 by linarith
  show "\<bar>a * S + b * C\<bar> \<le> 2 * k" using 3 4 by linarith
qed

lemma tileEdge64_approx:
  fixes x y r ax ay bx "by" :: real
  defines "C \<equiv> cos (tileAngle r)" and "S \<equiv> sin (tileAngle r)"
  defines "Dx \<equiv> bx - ax" and "Dy \<equiv> by - ay"
  defines "L \<equiv> sqrt (Dx * Dx + Dy * Dy)"
  defines "mx \<equiv> (ax + bx) / 2" and "my \<equiv> (ay + by) / 2"
  assumes tx: "tileX64 t = Fin x" and ty: "tileY64 t = Fin y" and tr: "rotation64 t = Fin r"
    and x: "\<bar>x\<bar> \<le> 2 ^ 30" and y: "\<bar>y\<bar> \<le> 2 ^ 30" and r: "\<bar>r\<bar> \<le> 2 ^ 30"
    and ap: "approxSeg (fa, fb, fc, fd) (ax, ay, bx, by)"
    and ok: "segOk (ax, ay, bx, by)"
  shows "approx (x64 (midpoint64 (makeEdge64 t (transform64 t fa fb) (transform64 t fc fd))))
           (x + (mx * C - my * S)) (1 / 2 ^ 19)"
    and "approx (y64 (midpoint64 (makeEdge64 t (transform64 t fa fb) (transform64 t fc fd))))
           (y + (mx * S + my * C)) (1 / 2 ^ 19)"
    and "approx (x64 (normal64 (makeEdge64 t (transform64 t fa fb) (transform64 t fc fd))))
           ((Dx * S + Dy * C) / L) (1 / 2 ^ 20)"
    and "approx (y64 (normal64 (makeEdge64 t (transform64 t fa fb) (transform64 t fc fd))))
           (- (Dx * C - Dy * S) / L) (1 / 2 ^ 20)"
    and "approx (length64 (makeEdge64 t (transform64 t fa fb) (transform64 t fc fd))) L (1 / 2 ^ 16)"
proof -
  have cs: "C\<^sup>2 + S\<^sup>2 = 1" by (simp add: C_def S_def)
  have C1: "\<bar>C\<bar> \<le> 1" and S1: "\<bar>S\<bar> \<le> 1" by (simp_all add: C_def S_def)
  from ap have fa: "approx fa ax (1 / 2 ^ 47)" and fb: "approx fb ay (1 / 2 ^ 47)"
    and fc: "approx fc bx (1 / 2 ^ 47)" and fd: "approx fd by (1 / 2 ^ 47)"
    by (simp_all add: approxSeg_def)
  from ok have b: "\<bar>ax\<bar> \<le> 50" "\<bar>ay\<bar> \<le> 50" "\<bar>bx\<bar> \<le> 50" "\<bar>by\<bar> \<le> 50"
    and lo: "1700 \<le> Dx * Dx + Dy * Dy" and hi: "Dx * Dx + Dy * Dy \<le> 2704"
    and fl: "1400 \<le> Dy * (ax + bx) - Dx * (ay + by)"
    by (simp_all add: segOk_def Dx_def Dy_def)
  define X1 where "X1 = x + (ax * C - ay * S)"
  define Y1 where "Y1 = y + (ax * S + ay * C)"
  define X2 where "X2 = x + (bx * C - by * S)"
  define Y2 where "Y2 = y + (bx * S + by * C)"
  let ?p = "transform64 t fa fb" and ?q = "transform64 t fc fd"
  have px: "approx (x64 ?p) X1 (1 / 2 ^ 21)" and py: "approx (y64 ?p) Y1 (1 / 2 ^ 21)"
    unfolding X1_def Y1_def C_def S_def
    by (rule transform64_approx [OF tx ty tr x y r fa fb b(1) b(2)])+
  have qx: "approx (x64 ?q) X2 (1 / 2 ^ 21)" and qy: "approx (y64 ?q) Y2 (1 / 2 ^ 21)"
    unfolding X2_def Y2_def C_def S_def
    by (rule transform64_approx [OF tx ty tr x y r fc fd b(3) b(4)])+
  note r1 = rot_bound [OF C1 S1 b(1) b(2)]
  note r2 = rot_bound [OF C1 S1 b(3) b(4)]
  have bX1: "\<bar>X1\<bar> \<le> 2 ^ 31" unfolding X1_def using x r1(1) by simp
  have bY1: "\<bar>Y1\<bar> \<le> 2 ^ 31" unfolding Y1_def using y r1(2) by simp
  have bX2: "\<bar>X2\<bar> \<le> 2 ^ 31" unfolding X2_def using x r2(1) by simp
  have bY2: "\<bar>Y2\<bar> \<le> 2 ^ 31" unfolding Y2_def using y r2(2) by simp
  have DX: "X2 - X1 = Dx * C - Dy * S"
    by (simp add: X1_def X2_def Dx_def Dy_def algebra_simps)
  have DY: "Y2 - Y1 = Dx * S + Dy * C"
    by (simp add: Y1_def Y2_def Dx_def Dy_def algebra_simps)
  have LL: "(X2 - X1) * (X2 - X1) + (Y2 - Y1) * (Y2 - Y1) = Dx * Dx + Dy * Dy"
    unfolding DX DY by (rule rot_sq [OF cs])
  have MX: "(X1 + X2) / 2 = x + (mx * C - my * S)"
    by (simp add: X1_def X2_def mx_def my_def field_simps)
  have MY: "(Y1 + Y2) / 2 = y + (mx * S + my * C)"
    by (simp add: Y1_def Y2_def mx_def my_def field_simps)
  have mb: "\<bar>mx\<bar> \<le> 50" "\<bar>my\<bar> \<le> 50"
    unfolding mx_def my_def using b by simp_all
  note r3 = rot_bound [OF C1 S1 mb]
  have cx: "\<bar>x - (X1 + X2) / 2\<bar> \<le> 100" unfolding MX using r3(1) by simp
  have cy: "\<bar>y - (Y1 + Y2) / 2\<bar> \<le> 100" unfolding MY using r3(2) by simp
  have "(Y2 - Y1) * (x - (X1 + X2) / 2) - (X2 - X1) * (y - (Y1 + Y2) / 2)
        = - ((Dx * S + Dy * C) * (mx * C - my * S) - (Dx * C - Dy * S) * (mx * S + my * C))"
    unfolding DX DY MX MY by (simp add: algebra_simps)
  also have "\<dots> = - (Dy * mx - Dx * my)"
    by (simp only: rot_cross [OF cs])
  also have "\<dots> = - ((Dy * (ax + bx) - Dx * (ay + by)) / 2)"
    by (simp add: mx_def my_def field_simps)
  also have "\<dots> \<le> - 700" using fl by simp
  finally have out: "(Y2 - Y1) * (x - (X1 + X2) / 2) - (X2 - X1) * (y - (Y1 + Y2) / 2) \<le> - 700" .
  have lo': "1700 \<le> (X2 - X1) * (X2 - X1) + (Y2 - Y1) * (Y2 - Y1)" unfolding LL by (rule lo)
  have hi': "(X2 - X1) * (X2 - X1) + (Y2 - Y1) * (Y2 - Y1) \<le> 2704" unfolding LL by (rule hi)
  note E = makeEdge64_approx [OF tx ty px py qx qy bX1 bX2 bY1 bY2 lo' hi' cx cy out]
  show "approx (x64 (midpoint64 (makeEdge64 t ?p ?q))) (x + (mx * C - my * S)) (1 / 2 ^ 19)"
    using E(2) unfolding MX .
  show "approx (y64 (midpoint64 (makeEdge64 t ?p ?q))) (y + (mx * S + my * C)) (1 / 2 ^ 19)"
    using E(3) unfolding MY .
  show "approx (x64 (normal64 (makeEdge64 t ?p ?q))) ((Dx * S + Dy * C) / L) (1 / 2 ^ 20)"
    using E(4) [unfolded LL, unfolded DY] unfolding L_def .
  show "approx (y64 (normal64 (makeEdge64 t ?p ?q))) (- (Dx * C - Dy * S) / L) (1 / 2 ^ 20)"
    using E(5) [unfolded LL, unfolded DX] unfolding L_def .
  show "approx (length64 (makeEdge64 t ?p ?q)) L (1 / 2 ^ 16)"
    using E(1) [unfolded LL] unfolding L_def .
qed

subsection \<open>Two edges of tiles at one place\<close>

lemma rot_unit_component:
  fixes u v c s :: real
  assumes cs: "c\<^sup>2 + s\<^sup>2 = 1" and pos: "0 < u * u + v * v"
  shows "\<bar>(u * s + v * c) / sqrt (u * u + v * v)\<bar> \<le> 2"
    and "\<bar>- (u * c - v * s) / sqrt (u * u + v * v)\<bar> \<le> 2"
proof -
  let ?L = "sqrt (u * u + v * v)"
  have L: "0 < ?L" using pos by simp
  have LL: "?L * ?L = u * u + v * v" using pos by simp
  have sq: "(u * c - v * s) * (u * c - v * s) + (u * s + v * c) * (u * s + v * c) = ?L * ?L"
    unfolding LL by (rule rot_sq [OF cs])
  have "(u * s + v * c) * (u * s + v * c) \<le> ?L * ?L"
    using sq zero_le_square [of "u * c - v * s"] by linarith
  then have "sqrt ((u * s + v * c) * (u * s + v * c)) \<le> sqrt (?L * ?L)"
    by (rule real_sqrt_le_mono)
  then have a: "\<bar>u * s + v * c\<bar> \<le> ?L" using L by (simp only: real_sqrt_abs2 abs_of_pos)
  have "(u * c - v * s) * (u * c - v * s) \<le> ?L * ?L"
    using sq zero_le_square [of "u * s + v * c"] by linarith
  then have "sqrt ((u * c - v * s) * (u * c - v * s)) \<le> sqrt (?L * ?L)"
    by (rule real_sqrt_le_mono)
  then have b: "\<bar>u * c - v * s\<bar> \<le> ?L" using L by (simp only: real_sqrt_abs2 abs_of_pos)
  have "\<bar>(u * s + v * c) / ?L\<bar> \<le> 1" using a L by simp
  then show "\<bar>(u * s + v * c) / ?L\<bar> \<le> 2" by linarith
  have "\<bar>- (u * c - v * s) / ?L\<bar> \<le> 1" using b L by simp
  then show "\<bar>- (u * c - v * s) / ?L\<bar> \<le> 2" by linarith
qed

lemma sq_scale:
  fixes g :: real
  shows "(10 * g)\<^sup>2 = 100 * (g * g)" and "(6 * g)\<^sup>2 = 36 * (g * g)"
  by (simp_all add: power2_eq_square)

lemma ratio_ge:
  fixes g P :: real
  assumes "- (6 * P) \<le> 10 * g" and "0 < P"
  shows "- (6 / 10) \<le> g / P"
proof -
  have "- (6 / 10) * P \<le> g" using assms(1) by linarith
  then show ?thesis using assms(2) by (simp add: pos_le_divide_eq)
qed

lemma div_dot_neg:
  fixes p q a b L L' :: real
  shows "p / L * (q / L') + - a / L * (- b / L') = (a * b + p * q) / (L * L')"
  by (simp add: add_divide_distrib)

lemma rot_normal_dot:
  fixes u v u' v' c s :: real
  assumes cs: "c\<^sup>2 + s\<^sup>2 = 1"
    and pos: "0 < u * u + v * v" and pos': "0 < u' * u' + v' * v'"
    and g: "0 \<le> u * u' + v * v' \<or>
            100 * ((u * u' + v * v') * (u * u' + v * v')) \<le> 36 * ((u * u + v * v) * (u' * u' + v' * v'))"
  shows "- (6 / 10) \<le> (u * s + v * c) / sqrt (u * u + v * v) * ((u' * s + v' * c) / sqrt (u' * u' + v' * v'))
                      + - (u * c - v * s) / sqrt (u * u + v * v) * (- (u' * c - v' * s) / sqrt (u' * u' + v' * v'))"
proof -
  let ?L = "sqrt (u * u + v * v)" and ?L' = "sqrt (u' * u' + v' * v')"
  let ?g = "u * u' + v * v'"
  have L: "0 < ?L" and L': "0 < ?L'" using pos pos' by simp_all
  have P: "0 < ?L * ?L'" using L L' by simp
  have LL: "?L * ?L = u * u + v * v" and LL': "?L' * ?L' = u' * u' + v' * v'"
    using pos pos' by simp_all
  have d: "(u * c - v * s) * (u' * c - v' * s) + (u * s + v * c) * (u' * s + v' * c) = ?g"
    by (rule rot_dot [OF cs])
  have "(u * s + v * c) / ?L * ((u' * s + v' * c) / ?L') + - (u * c - v * s) / ?L * (- (u' * c - v' * s) / ?L')
        = ((u * c - v * s) * (u' * c - v' * s) + (u * s + v * c) * (u' * s + v' * c)) / (?L * ?L')"
    by (rule div_dot_neg)
  also have "\<dots> = ?g / (?L * ?L')" unfolding d ..
  finally have e: "(u * s + v * c) / ?L * ((u' * s + v' * c) / ?L') + - (u * c - v * s) / ?L * (- (u' * c - v' * s) / ?L')
        = ?g / (?L * ?L')" .
  have "- (6 / 10) \<le> ?g / (?L * ?L')"
  proof (cases "0 \<le> ?g")
    case True
    then have "0 \<le> ?g / (?L * ?L')" using P by simp
    then show ?thesis by linarith
  next
    case False
    with g have h: "100 * (?g * ?g) \<le> 36 * ((u * u + v * v) * (u' * u' + v' * v'))" by blast
    have "(10 * ?g)\<^sup>2 = 100 * (?g * ?g)" by (rule sq_scale)
    moreover have "(?L * ?L') * (?L * ?L') = (?L * ?L) * (?L' * ?L')" by (simp only: ac_simps)
    then have "(6 * (?L * ?L'))\<^sup>2 = 36 * ((?L * ?L) * (?L' * ?L'))"
      by (simp only: sq_scale)
    ultimately have "(10 * ?g)\<^sup>2 \<le> (6 * (?L * ?L'))\<^sup>2" using h unfolding LL LL' by linarith
    then have "\<bar>10 * ?g\<bar> \<le> \<bar>6 * (?L * ?L')\<bar>" by (simp only: abs_le_square_iff)
    then have "- (6 * (?L * ?L')) \<le> 10 * ?g" using P by linarith
    then show ?thesis using P by (rule ratio_ge)
  qed
  then show ?thesis unfolding e .
qed

lemma rot_midpoint_gap:
  fixes x y mx my mx' my' c s :: real
  assumes cs: "c\<^sup>2 + s\<^sup>2 = 1" and C: "\<bar>c\<bar> \<le> 1" and S: "\<bar>s\<bar> \<le> 1"
    and b: "\<bar>mx\<bar> \<le> 50" "\<bar>my\<bar> \<le> 50" "\<bar>mx'\<bar> \<le> 50" "\<bar>my'\<bar> \<le> 50"
  shows "\<bar>(x + (mx * c - my * s)) - (x + (mx' * c - my' * s))\<bar> \<le> 200"
    and "\<bar>(y + (mx * s + my * c)) - (y + (mx' * s + my' * c))\<bar> \<le> 200"
    and "((x + (mx * c - my * s)) - (x + (mx' * c - my' * s))) * ((x + (mx * c - my * s)) - (x + (mx' * c - my' * s)))
         + ((y + (mx * s + my * c)) - (y + (mx' * s + my' * c))) * ((y + (mx * s + my * c)) - (y + (mx' * s + my' * c)))
         = (mx - mx') * (mx - mx') + (my - my') * (my - my')"
proof -
  have e1: "(x + (mx * c - my * s)) - (x + (mx' * c - my' * s)) = (mx - mx') * c - (my - my') * s"
    by (simp add: algebra_simps)
  have e2: "(y + (mx * s + my * c)) - (y + (mx' * s + my' * c)) = (mx - mx') * s + (my - my') * c"
    by (simp add: algebra_simps)
  have k: "\<bar>mx - mx'\<bar> \<le> 100" "\<bar>my - my'\<bar> \<le> 100" using b by linarith+
  from rot_bound_gen [OF C S k]
  show "\<bar>(x + (mx * c - my * s)) - (x + (mx' * c - my' * s))\<bar> \<le> 200"
    and "\<bar>(y + (mx * s + my * c)) - (y + (mx' * s + my' * c))\<bar> \<le> 200"
    unfolding e1 e2 by simp_all
  show "((x + (mx * c - my * s)) - (x + (mx' * c - my' * s))) * ((x + (mx * c - my * s)) - (x + (mx' * c - my' * s)))
         + ((y + (mx * s + my * c)) - (y + (mx' * s + my' * c))) * ((y + (mx * s + my * c)) - (y + (mx' * s + my' * c)))
         = (mx - mx') * (mx - mx') + (my - my') * (my - my')"
    unfolding e1 e2 by (rule rot_sq [OF cs])
qed

lemma segment_edges_incompatible64:
  fixes x y r :: real
  assumes tx: "tileX64 t = Fin x" and ty: "tileY64 t = Fin y" and tr: "rotation64 t = Fin r"
    and x: "\<bar>x\<bar> \<le> 2 ^ 30" and y: "\<bar>y\<bar> \<le> 2 ^ 30" and r: "\<bar>r\<bar> \<le> 2 ^ 30"
    and tx': "tileX64 t' = Fin x" and ty': "tileY64 t' = Fin y" and tr': "rotation64 t' = Fin r"
    and ap: "approxSeg (fa, fb, fc, fd) (ax, ay, bx, by)"
    and ok: "segOk (ax, ay, bx, by)"
    and ap': "approxSeg (fa', fb', fc', fd') (ax', ay', bx', by')"
    and ok': "segOk (ax', ay', bx', by')"
    and apart: "segsApart (ax, ay, bx, by) (ax', ay', bx', by')"
  shows "\<not> areEdgesCompatible64 (makeEdge64 t (transform64 t fa fb) (transform64 t fc fd))
                                 (makeEdge64 t' (transform64 t' fa' fb') (transform64 t' fc' fd'))"
proof -
  let ?e = "makeEdge64 t (transform64 t fa fb) (transform64 t fc fd)"
  let ?e' = "makeEdge64 t' (transform64 t' fa' fb') (transform64 t' fc' fd')"
  define C where "C = cos (tileAngle r)"
  define S where "S = sin (tileAngle r)"
  have cs: "C\<^sup>2 + S\<^sup>2 = 1" by (simp add: C_def S_def)
  have C1: "\<bar>C\<bar> \<le> 1" and S1: "\<bar>S\<bar> \<le> 1" by (simp_all add: C_def S_def)
  note E = tileEdge64_approx [OF tx ty tr x y r ap ok, folded C_def S_def]
  note E' = tileEdge64_approx [OF tx' ty' tr' x y r ap' ok', folded C_def S_def]
  from ok have b: "\<bar>ax\<bar> \<le> 50" "\<bar>ay\<bar> \<le> 50" "\<bar>bx\<bar> \<le> 50" "\<bar>by\<bar> \<le> 50"
    and lo: "1700 \<le> (bx - ax) * (bx - ax) + (by - ay) * (by - ay)"
    by (simp_all add: segOk_def)
  from ok' have b': "\<bar>ax'\<bar> \<le> 50" "\<bar>ay'\<bar> \<le> 50" "\<bar>bx'\<bar> \<le> 50" "\<bar>by'\<bar> \<le> 50"
    and lo': "1700 \<le> (bx' - ax') * (bx' - ax') + (by' - ay') * (by' - ay')"
    by (simp_all add: segOk_def)
  have pos: "0 < (bx - ax) * (bx - ax) + (by - ay) * (by - ay)" using lo by linarith
  have pos': "0 < (bx' - ax') * (bx' - ax') + (by' - ay') * (by' - ay')" using lo' by linarith
  have mb: "\<bar>(ax + bx) / 2\<bar> \<le> 50" "\<bar>(ay + by) / 2\<bar> \<le> 50"
    "\<bar>(ax' + bx') / 2\<bar> \<le> 50" "\<bar>(ay' + by') / 2\<bar> \<le> 50"
    using b b' by simp_all
  from apart consider
    (far) "1700 \<le> ((ax + bx) / 2 - (ax' + bx') / 2) * ((ax + bx) / 2 - (ax' + bx') / 2) +
                     ((ay + by) / 2 - (ay' + by') / 2) * ((ay + by) / 2 - (ay' + by') / 2)"
  | (wide) "0 \<le> (bx - ax) * (bx' - ax') + (by - ay) * (by' - ay') \<or>
            100 * (((bx - ax) * (bx' - ax') + (by - ay) * (by' - ay')) *
                   ((bx - ax) * (bx' - ax') + (by - ay) * (by' - ay')))
            \<le> 36 * (((bx - ax) * (bx - ax) + (by - ay) * (by - ay)) *
                     ((bx' - ax') * (bx' - ax') + (by' - ay') * (by' - ay')))"
    unfolding segsApart_def Let_def prod.case by blast
  then show ?thesis
  proof cases
    case far
    note G = rot_midpoint_gap [OF cs C1 S1 mb]
    have "fgt (midpointDistance64 ?e ?e') (Fin 40)"
      by (rule far_midpoints64 [OF E(1) E(2) E'(1) E'(2) G(1) G(2)]) (unfold G(3), rule far)
    then show ?thesis by (rule far_incompatible64)
  next
    case wide
    note U = rot_unit_component [OF cs pos]
    note U' = rot_unit_component [OF cs pos']
    note D = rot_normal_dot [OF cs pos pos' wide]
    have "fgt (normalDot64 ?e ?e') (fneg (lit (9 / 10)))"
      by (rule open_normals64 [OF E(3) E(4) E'(3) E'(4) U U' D])
    then show ?thesis by (rule open_incompatible64)
  qed
qed

subsection \<open>No bond between edges of tiles at one place\<close>

lemma list_all2_in_left:
  "list_all2 P xs ys \<Longrightarrow> x \<in> set xs \<Longrightarrow> \<exists>y \<in> set ys. P x y"
  by (induction rule: list_all2_induct) auto

lemma list_all_in: "list_all P xs \<Longrightarrow> x \<in> set xs \<Longrightarrow> P x"
  by (simp add: list_all_iff)

lemma in_getShapeEdges64:
  assumes "e \<in> set (getShapeEdges64 t)"
  obtains fa fb fc fd ax ay bx "by"
  where "e = makeEdge64 t (transform64 t fa fb) (transform64 t fc fd)"
    and "approxSeg (fa, fb, fc, fd) (ax, ay, bx, by)"
    and "(ax, ay, bx, by) \<in> set (localSegments (shape64 t))"
proof -
  from assms obtain f where f: "f \<in> set (localSegments64 (shape64 t))"
    and e: "e = (\<lambda>(ax, ay, bx, by). makeEdge64 t (transform64 t ax ay) (transform64 t bx by)) f"
    unfolding getShapeEdges64_local by auto
  obtain fa fb fc fd where ff: "f = (fa, fb, fc, fd)" by (cases f) auto
  from list_all2_in_left [OF localSegments64_approx f]
  obtain s where s: "s \<in> set (localSegments (shape64 t))" and a: "approxSeg f s" by blast
  obtain ax ay bx "by" where ss: "s = (ax, ay, bx, by)" by (cases s) auto
  show thesis
    by (rule that [of fa fb fc fd ax ay bx "by"]) (use e ff a s ss in simp_all)
qed

lemma same_place_incompatible64:
  fixes x y r :: real
  assumes tx: "tileX64 t = Fin x" and ty: "tileY64 t = Fin y" and tr: "rotation64 t = Fin r"
    and x: "\<bar>x\<bar> \<le> 2 ^ 30" and y: "\<bar>y\<bar> \<le> 2 ^ 30" and r: "\<bar>r\<bar> \<le> 2 ^ 30"
    and sh: "shape64 t' = shape64 t"
    and tx': "tileX64 t' = tileX64 t" and ty': "tileY64 t' = tileY64 t"
    and tr': "rotation64 t' = rotation64 t"
    and e1: "e1 \<in> set (getShapeEdges64 t)" and e2: "e2 \<in> set (getShapeEdges64 t')"
  shows "\<not> areEdgesCompatible64 e1 e2"
proof -
  from e1 obtain fa fb fc fd ax ay bx "by"
    where E1: "e1 = makeEdge64 t (transform64 t fa fb) (transform64 t fc fd)"
      and a1: "approxSeg (fa, fb, fc, fd) (ax, ay, bx, by)"
      and s1: "(ax, ay, bx, by) \<in> set (localSegments (shape64 t))"
    by (rule in_getShapeEdges64)
  from e2 obtain fa' fb' fc' fd' ax' ay' bx' by'
    where E2: "e2 = makeEdge64 t' (transform64 t' fa' fb') (transform64 t' fc' fd')"
      and a2: "approxSeg (fa', fb', fc', fd') (ax', ay', bx', by')"
      and s2: "(ax', ay', bx', by') \<in> set (localSegments (shape64 t))"
    unfolding sh [symmetric] by (rule in_getShapeEdges64)
  have ok1: "segOk (ax, ay, bx, by)" by (rule list_all_in [OF localSegments_ok s1])
  have ok2: "segOk (ax', ay', bx', by')" by (rule list_all_in [OF localSegments_ok s2])
  have "list_all (segsApart (ax, ay, bx, by)) (localSegments (shape64 t))"
    by (rule list_all_in [OF localSegments_apart s1])
  then have ap: "segsApart (ax, ay, bx, by) (ax', ay', bx', by')"
    using s2 by (rule list_all_in)
  have tx2: "tileX64 t' = Fin x" and ty2: "tileY64 t' = Fin y" and tr2: "rotation64 t' = Fin r"
    using tx ty tr tx' ty' tr' by simp_all
  show ?thesis
    unfolding E1 E2
    by (rule segment_edges_incompatible64 [OF tx ty tr x y r tx2 ty2 tr2 a1 ok1 a2 ok2 ap])
qed

lemma canTilesSnap64_none:
  "\<not> canSnap64 (canTilesSnap64 a b) \<Longrightarrow>
   canTilesSnap64 a b = \<lparr>canSnap64 = False, snapPosition64 = None\<rparr>"
  by (simp add: canTilesSnap64_def Let_def split: option.splits)

section \<open>The claims\<close>

subsection \<open>C1: the two-square scenario\<close>

text \<open>
  C1. For two square tiles, \<open>A\<close> centred at \<open>(300, 300)\<close> and \<open>B\<close> at \<open>(360, 300)\<close>, both
  with rotation 0 (identifier, colour and mirror fields arbitrary), \<open>canTilesSnap A B\<close>
  returns \<open>canSnap = true\<close> with the snap position \<open>(309, 300)\<close>: the offset \<open>+10\<close> takes
  the midpoint of \<open>A\<close>'s right edge (\<open>x = 325\<close>) onto the midpoint of \<open>B\<close>'s left edge
  (\<open>x = 335\<close>), and the 1-unit push along that edge's normal \<open>(-1, 0)\<close> takes one unit
  off again. The x-coordinate is \<open>310 - 1\<close>, the y-coordinate is \<open>300\<close>.
\<close>

theorem two_squares_snap:
  "canSnap (canTilesSnap
      \<lparr>tile_id = ida, shape = Square, tile_x = 300, tile_y = 300, rotation = 0,
       color = ca, isSymmetryMirror = ma, originalId = oa\<rparr>
      \<lparr>tile_id = idb, shape = Square, tile_x = 360, tile_y = 300, rotation = 0,
       color = cb, isSymmetryMirror = mb, originalId = ob\<rparr>) \<and>
   snapPosition (canTilesSnap
      \<lparr>tile_id = ida, shape = Square, tile_x = 300, tile_y = 300, rotation = 0,
       color = ca, isSymmetryMirror = ma, originalId = oa\<rparr>
      \<lparr>tile_id = idb, shape = Square, tile_x = 360, tile_y = 300, rotation = 0,
       color = cb, isSymmetryMirror = mb, originalId = ob\<rparr>)
     = Some \<lparr>pt_x = 310 - 1, pt_y = 300\<rparr>"
proof -
  have "canTilesSnap
      \<lparr>tile_id = ida, shape = Square, tile_x = 300, tile_y = 300, rotation = 0,
       color = ca, isSymmetryMirror = ma, originalId = oa\<rparr>
      \<lparr>tile_id = idb, shape = Square, tile_x = 360, tile_y = 300, rotation = 0,
       color = cb, isSymmetryMirror = mb, originalId = ob\<rparr>
    = \<lparr>canSnap = True, snapPosition = Some \<lparr>pt_x = 309, pt_y = 300\<rparr>\<rparr>"
    by (rule squares_snap_value) simp_all
  then show ?thesis by simp
qed

subsection \<open>C2: snap alignment\<close>




subsection \<open>C3: zero-length edges\<close>




subsection \<open>C4: radial mirrors\<close>

text \<open>
  C4. For every tile and every supply of identifiers, \<open>createSymmetryMirrors\<close> in mode
  \<open>radial\<close> returns exactly three tiles, placed at the horizontal reflection, the
  vertical reflection and the point reflection (both combined) of the primary through the
  canvas centre \<open>(300, 300)\<close>; and the set of the four positions (primary and mirrors) is
  mapped onto itself by the horizontal and by the vertical reflection.
\<close>

theorem radial_mirrors:
  "length (createSymmetryMirrors Radial fresh t) = 3 \<and>
   map tilePosition (createSymmetryMirrors Radial fresh t)
     = [reflectHorizontal (tilePosition t), reflectVertical (tilePosition t),
        reflectHorizontal (reflectVertical (tilePosition t))] \<and>
   reflectHorizontal ` set (tilePosition t # map tilePosition (createSymmetryMirrors Radial fresh t))
     = set (tilePosition t # map tilePosition (createSymmetryMirrors Radial fresh t)) \<and>
   reflectVertical ` set (tilePosition t # map tilePosition (createSymmetryMirrors Radial fresh t))
     = set (tilePosition t # map tilePosition (createSymmetryMirrors Radial fresh t))"
proof -
  have m: "map tilePosition (createSymmetryMirrors Radial fresh t)
     = [reflectHorizontal (tilePosition t), reflectVertical (tilePosition t),
        reflectHorizontal (reflectVertical (tilePosition t))]"
    by (simp add: createSymmetryMirrors_def tilePosition_def reflectHorizontal_def
        reflectVertical_def)
  have l: "length (createSymmetryMirrors Radial fresh t) = 3"
    by (simp add: createSymmetryMirrors_def)
  have hh: "reflectHorizontal (reflectHorizontal p) = p" for p
    by (simp add: reflectHorizontal_def)
  have vv: "reflectVertical (reflectVertical p) = p" for p
    by (simp add: reflectVertical_def)
  have hv: "reflectVertical (reflectHorizontal p) = reflectHorizontal (reflectVertical p)" for p
    by (simp add: reflectHorizontal_def reflectVertical_def)
  have ch: "reflectHorizontal ` set [p, reflectHorizontal p, reflectVertical p,
                                     reflectHorizontal (reflectVertical p)]
            = set [p, reflectHorizontal p, reflectVertical p,
                   reflectHorizontal (reflectVertical p)]" for p
    by (auto simp: hh)
  have cv: "reflectVertical ` set [p, reflectHorizontal p, reflectVertical p,
                                   reflectHorizontal (reflectVertical p)]
            = set [p, reflectHorizontal p, reflectVertical p,
                   reflectHorizontal (reflectVertical p)]" for p
    by (auto simp: vv hv)
  show ?thesis
    unfolding m using l ch [of "tilePosition t"] cv [of "tilePosition t"] by simp
qed

subsection \<open>C5: no bond between two edges of an unmoved tile\<close>

text \<open>
  C5. For every shape kind, for a tile of that kind at the origin with rotation 0, any
  two edges of the tile (distinct or not) fail the proximity gate (midpoint distance
  above 40) or the orientation gate (normal dot product above \<open>-0.9\<close>), and
  \<open>areEdgesCompatible\<close> returns false for them.
\<close>

theorem origin_tile_no_self_bond:
  assumes "tile_x t = 0" and "tile_y t = 0" and "rotation t = 0"
  shows "\<forall>e1 \<in> set (getShapeEdges t). \<forall>e2 \<in> set (getShapeEdges t).
           (40 < midpointDistance e1 e2 \<or> - (9 / 10) < normalDot e1 e2) \<and>
           \<not> areEdgesCompatible e1 e2"
  using same_tile_gates same_tile_incompatible by blast

theorem origin_tile_no_self_bond_witness:
  "tile_x (placedTile ''a'' Square 0 0) = 0 \<and> tile_y (placedTile ''a'' Square 0 0) = 0 \<and>
   rotation (placedTile ''a'' Square 0 0) = 0 \<and>
   getShapeEdges (placedTile ''a'' Square 0 0) ! 0 \<in> set (getShapeEdges (placedTile ''a'' Square 0 0)) \<and>
   getShapeEdges (placedTile ''a'' Square 0 0) ! 2 \<in> set (getShapeEdges (placedTile ''a'' Square 0 0)) \<and>
   (40 < midpointDistance (getShapeEdges (placedTile ''a'' Square 0 0) ! 0)
                          (getShapeEdges (placedTile ''a'' Square 0 0) ! 2) \<or>
    - (9 / 10) < normalDot (getShapeEdges (placedTile ''a'' Square 0 0) ! 0)
                           (getShapeEdges (placedTile ''a'' Square 0 0) ! 2)) \<and>
   \<not> areEdgesCompatible (getShapeEdges (placedTile ''a'' Square 0 0) ! 0)
                         (getShapeEdges (placedTile ''a'' Square 0 0) ! 2)"
proof -
  let ?t = "placedTile ''a'' Square 0 0"
  have h: "tile_x ?t = 0" "tile_y ?t = 0" "rotation ?t = 0"
    by (simp_all add: placedTile_def)
  have len: "length (getShapeEdges ?t) = 4"
    by (simp add: getShapeEdges_count placedTile_def)
  have m0: "getShapeEdges ?t ! 0 \<in> set (getShapeEdges ?t)"
    by (rule nth_mem) (simp add: len)
  have m2: "getShapeEdges ?t ! 2 \<in> set (getShapeEdges ?t)"
    by (rule nth_mem) (simp add: len)
  from origin_tile_no_self_bond [OF h] m0 m2
  have "(40 < midpointDistance (getShapeEdges ?t ! 0) (getShapeEdges ?t ! 2) \<or>
         - (9 / 10) < normalDot (getShapeEdges ?t ! 0) (getShapeEdges ?t ! 2)) \<and>
        \<not> areEdgesCompatible (getShapeEdges ?t ! 0) (getShapeEdges ?t ! 2)"
    by blast
  with h m0 m2 show ?thesis by (intro conjI) simp_all
qed

subsection \<open>C6: symmetry of the compatibility test\<close>

text \<open>
  C6. \<open>areEdgesCompatible\<close> is symmetric: for all edges \<open>a\<close> and \<open>b\<close>,
  \<open>areEdgesCompatible a b\<close> equals \<open>areEdgesCompatible b a\<close>.
\<close>

theorem areEdgesCompatible_symmetric:
  "areEdgesCompatible a b = areEdgesCompatible b a"
  by (simp add: areEdgesCompatible_def midpointDistance_def Let_def abs_minus_commute
      power2_commute mult.commute disj_commute)

subsection \<open>C7: normals never point inward\<close>




subsection \<open>C8: the two fields of the snap result\<close>

text \<open>
  C8. For every pair of tiles, in the result of \<open>canTilesSnap\<close> the field
  \<open>snapPosition\<close> is null exactly when \<open>canSnap\<close> is false, and it is a point exactly
  when \<open>canSnap\<close> is true.
\<close>

theorem snap_result_consistent:
  "(snapPosition (canTilesSnap a b) = None) = (\<not> canSnap (canTilesSnap a b)) \<and>
   (\<exists>P. snapPosition (canTilesSnap a b) = Some P) = canSnap (canTilesSnap a b)"
  by (simp add: canTilesSnap_def Let_def split: option.splits)

subsection \<open>C9: what a mirror keeps\<close>

text \<open>
  C9. For every symmetry mode, every primary tile and every supply of identifiers, every
  tile returned by \<open>createSymmetryMirrors\<close> has the shape, rotation and colour of the
  primary: it is the primary with only the identifier, the coordinates and the two
  mirror-marking fields replaced, the marking fields being \<open>true\<close> and the primary's
  identifier.
\<close>

theorem mirrors_keep_shape_rotation_color:
  "\<forall>m \<in> set (createSymmetryMirrors mode fresh t).
     shape m = shape t \<and> rotation m = rotation t \<and> color m = color t \<and>
     m = t\<lparr>tile_id := tile_id m, tile_x := tile_x m, tile_y := tile_y m,
           isSymmetryMirror := Some True, originalId := Some (tile_id t)\<rparr>"
  by (cases mode) (auto simp: createSymmetryMirrors_def)

theorem mirrors_keep_shape_rotation_color_witness:
  "(placedTile ''a'' Hexagon 250 250)\<lparr>tile_id := ''m0'', tile_x := 350,
       isSymmetryMirror := Some True, originalId := Some ''a''\<rparr>
     \<in> set (createSymmetryMirrors Horizontal (\<lambda>k. if k = 0 then ''m0'' else ''m1'')
              (placedTile ''a'' Hexagon 250 250)) \<and>
   shape ((placedTile ''a'' Hexagon 250 250)\<lparr>tile_id := ''m0'', tile_x := 350,
       isSymmetryMirror := Some True, originalId := Some ''a''\<rparr>) = Hexagon \<and>
   rotation ((placedTile ''a'' Hexagon 250 250)\<lparr>tile_id := ''m0'', tile_x := 350,
       isSymmetryMirror := Some True, originalId := Some ''a''\<rparr>) = 0 \<and>
   color ((placedTile ''a'' Hexagon 250 250)\<lparr>tile_id := ''m0'', tile_x := 350,
       isSymmetryMirror := Some True, originalId := Some ''a''\<rparr>) = ''#ef4444''"
proof -
  let ?t = "placedTile ''a'' Hexagon 250 250"
  let ?m = "?t\<lparr>tile_id := ''m0'', tile_x := 350, isSymmetryMirror := Some True,
               originalId := Some ''a''\<rparr>"
  let ?f = "\<lambda>k::nat. if k = 0 then ''m0'' else ''m1''"
  have mem: "?m \<in> set (createSymmetryMirrors Horizontal ?f ?t)"
    by (simp add: createSymmetryMirrors_def placedTile_def centerX_def)
  from mirrors_keep_shape_rotation_color [of Horizontal ?f ?t] mem
  have "shape ?m = shape ?t \<and> rotation ?m = rotation ?t \<and> color ?m = color ?t"
    by blast
  then have "shape ?m = Hexagon \<and> rotation ?m = 0 \<and> color ?m = ''#ef4444''"
    by (simp add: placedTile_def)
  with mem show ?thesis by (intro conjI) simp_all
qed

subsection \<open>C10: a tile does not snap to a copy of itself\<close>

text \<open>
  C10, as stated, fails on the code. In binary64 the unrotated square at \<open>(2\<^sup>5\<^sup>8, 0)\<close>
  has its left edge at \<open>x = 2\<^sup>5\<^sup>8 - 32\<close> and its right edge at \<open>x = 2\<^sup>5\<^sup>8\<close>: they are
  32 apart, of equal length, with opposite normals, hence compatible, and
  \<open>canTilesSnap\<close> of the tile and a copy of it in the same place returns
  \<open>canSnap = true\<close>.
\<close>

theorem self_snap_binary64:
  "canSnap64 (canTilesSnap64 (placedTile64 ''a'' Square 288230376151711744 0)
                             (placedTile64 ''a'' Square 288230376151711744 0)) \<and>
   canSnap64 (canTilesSnap64 (placedTile64 ''a'' Square 288230376151711744 0)
                             (placedTile64 ''b'' Square 288230376151711744 0))"
  by (simp only: snap_big SnapResult64.select_convs simp_thms)

text \<open>
  C10, amended: in binary64, for every tile \<open>t\<close> of any shape kind whose coordinates and
  rotation are finite and at most \<open>2\<^sup>3\<^sup>0\<close> in absolute value, \<open>canTilesSnap t t\<close> returns
  \<open>canSnap = false\<close> (and no position); the same holds for \<open>t\<close> and any tile \<open>t'\<close> with the
  shape, position and rotation of \<open>t\<close>, whatever its identifier, colour and mirror
  fields. Within that range the rounding errors of the vertices, midpoints and normals
  stay below \<open>2\<^sup>-\<^sup>1\<^sup>9\<close>, and every pair of edges of one tile has midpoints more than
  \<open>41\<close> apart or normals whose dot product is at least \<open>-0.6\<close>.
\<close>

theorem no_self_snap:
  fixes x y r :: real
  assumes "tileX64 t = Fin x" and "tileY64 t = Fin y" and "rotation64 t = Fin r"
    and "\<bar>x\<bar> \<le> 2 ^ 30" and "\<bar>y\<bar> \<le> 2 ^ 30" and "\<bar>r\<bar> \<le> 2 ^ 30"
    and "shape64 t' = shape64 t"
    and "tileX64 t' = tileX64 t" and "tileY64 t' = tileY64 t"
    and "rotation64 t' = rotation64 t"
  shows "canTilesSnap64 t t = \<lparr>canSnap64 = False, snapPosition64 = None\<rparr> \<and>
         canTilesSnap64 t t' = \<lparr>canSnap64 = False, snapPosition64 = None\<rparr>"
proof -
  have a: "\<not> canSnap64 (canTilesSnap64 t t)"
    unfolding canSnap64_iff
    using same_place_incompatible64 [OF assms(1-6) refl refl refl refl] by blast
  have b: "\<not> canSnap64 (canTilesSnap64 t t')"
    unfolding canSnap64_iff
    using same_place_incompatible64 [OF assms] by blast
  show ?thesis using canTilesSnap64_none [OF a] canTilesSnap64_none [OF b] by simp
qed

theorem no_self_snap_witness:
  "canTilesSnap64 (placedTile64 ''a'' Hexagon 300 300) (placedTile64 ''a'' Hexagon 300 300)
     = \<lparr>canSnap64 = False, snapPosition64 = None\<rparr> \<and>
   canTilesSnap64 (placedTile64 ''a'' Hexagon 300 300) (placedTile64 ''b'' Hexagon 300 300)
     = \<lparr>canSnap64 = False, snapPosition64 = None\<rparr>"
  using no_self_snap [of "placedTile64 ''a'' Hexagon 300 300" 300 300 0
                         "placedTile64 ''b'' Hexagon 300 300"]
  by (simp add: placedTile64_def)

end
